theory Spec2Isabelle
  imports Main "HOL-Library.AList"
begin

section \<open>Configuration and the retry/backoff policy\<close>

text \<open>
  The tunables of \<^verbatim>\<open>OrchestrationState._create_initial_state\<close> (the \<^verbatim>\<open>config\<close> block)
  that the scraping stage and the cooldown calculator read. JSON integers are unbounded,
  as Python's are.
\<close>

record config =
  max_channel_retries :: int
  browser_restart_interval :: int
  cooldown_after_failure :: int
  cooldown_multiplier :: int
  max_cooldown :: int

definition initial_config :: config where
  "initial_config = \<lparr>max_channel_retries = 3, browser_restart_interval = 50,
     cooldown_after_failure = 60, cooldown_multiplier = 2, max_cooldown = 600\<rparr>"

text \<open>
  \<^verbatim>\<open>ResilientOrchestrator._calculate_cooldown\<close>:
  \<^verbatim>\<open>cooldown = base * (multiplier ** (attempts - 1)); return min(cooldown, max_cooldown)\<close>.
  For \<^verbatim>\<open>attempts < 1\<close> the exponent is negative and Python leaves the integers (a float,
  or ZeroDivisionError for a zero multiplier): the integer model returns \<open>None\<close> there.
\<close>

definition calculate_cooldown :: "config \<Rightarrow> int \<Rightarrow> int option" where
  "calculate_cooldown cfg attempts =
     (if attempts < 1 then None
      else Some (min (cooldown_after_failure cfg * (cooldown_multiplier cfg ^ nat (attempts - 1)))
                     (max_cooldown cfg)))"

section \<open>Queue, progress and scrape outcomes\<close>

text \<open>
  A queue entry is a string or a dict; of a dict the code reads the values under
  \<^verbatim>\<open>'channel_id'\<close> and \<^verbatim>\<open>'handle'\<close> (\<open>None\<close> where the key is missing or null).
\<close>

datatype channel_entry = EntryStr string | EntryDict "string option" "string option"

record failure_record =
  attempts :: nat
  last_error :: string
  first_failed_at :: string

text \<open>
  The queue document and the global progress document, with the fields the scraping
  stage reads and writes. Every read in the stage is a \<^verbatim>\<open>.get\<close> with the empty default, so a
  missing key and its default are the same document here. The failed map is an
  association list in insertion order, as a Python dict is.
\<close>

record queue_data =
  channels :: "channel_entry list"
  completed :: "string list"
  failed :: "(string \<times> failure_record) list"
  current_index :: int

record progress =
  completed_channels :: "string list"
  failed_channels :: "(string \<times> failure_record) list"
  last_updated :: "string option"

record stats =
  stat_success :: int
  stat_failed :: int
  stat_skipped :: int

text \<open>
  What \<^verbatim>\<open>scraper.scrape_channel\<close> followed by \<^verbatim>\<open>scraper.save_channel_data\<close> does for one
  entity: it returns (the identifier the artifact is saved under), or raises
  \<^verbatim>\<open>ChannelSkippedException\<close>, \<^verbatim>\<open>ChannelNotFoundException\<close>, \<^verbatim>\<open>RateLimitException\<close> or any
  other \<^verbatim>\<open>Exception\<close>, each with its message.
\<close>

datatype outcome =
    Success string
  | Skipped
  | NotFound string
  | RateLimited string
  | TransientError string

datatype event =
    StartBrowser
  | Cleanup
  | Sleep "int option"
  | RandomDelay
  | ScrapeChannel string
  | SaveQueueFile queue_data
  | SaveProgress progress

datatype halt = GracefulExit | IndexError | AttributeError

text \<open>
  The collaborators of one run: the outcome of scraping the entity at loop index \<open>i\<close>,
  whether the shutdown flag is set when the loop reaches \<open>i\<close>, the clock during
  iteration \<open>i\<close>, and the clock when the \<^verbatim>\<open>finally\<close> block runs.
\<close>

record env =
  scrape :: "int \<Rightarrow> outcome"
  shutdown_requested :: "int \<Rightarrow> bool"
  clock :: "int \<Rightarrow> string"
  finished_at :: string

text \<open>
  The state of \<^verbatim>\<open>run_scraping\<close>: its local variables, the three counters of the
  orchestration state it updates, the two checkpoint files as last written (writes are
  taken to succeed), the output directory (the stems of the artifacts present) and the
  trace of effects.
\<close>

record run_state =
  queue :: queue_data
  prog :: progress
  output_dir :: "string list"
  session_stats :: stats
  channels_since_restart :: int
  browser_restarts :: int
  total_channels_scraped :: int
  total_channels_failed :: int
  queue_file :: queue_data
  progress_file :: progress
  trace :: "event list"

text \<open>\<^verbatim>\<open>channels[i]\<close>: a negative index counts from the end, out of range raises.\<close>

definition channel_at :: "channel_entry list \<Rightarrow> int \<Rightarrow> channel_entry option" where
  "channel_at xs i =
     (if 0 \<le> i \<and> i < int (length xs) then Some (xs ! nat i)
      else if - int (length xs) \<le> i \<and> i < 0 then Some (xs ! nat (int (length xs) + i))
      else None)"

text \<open>\<^verbatim>\<open>a or b\<close> on values that are a string or \<open>None\<close>: the empty string is falsy.\<close>

fun py_or :: "string option \<Rightarrow> string option \<Rightarrow> string option" where
  "py_or (Some a) b = (if a = [] then b else Some a)"
| "py_or None b = b"

text \<open>The identifier \<^verbatim>\<open>run_scraping\<close> takes from an entry.\<close>

fun channel_id_of :: "channel_entry \<Rightarrow> string option" where
  "channel_id_of (EntryStr c) = Some c"
| "channel_id_of (EntryDict c h) = py_or c h"

text \<open>\<^verbatim>\<open>channel_id.replace('@', '').replace('/', '_').replace('\\', '_')\<close>\<close>

definition safe_id :: "string \<Rightarrow> string" where
  "safe_id c = map (\<lambda>x. if x = CHR ''/'' \<or> x = CHR 0x5C then CHR ''_'' else x)
                   (filter (\<lambda>x. x \<noteq> CHR ''@'') c)"

definition is_channel_completed :: "string \<Rightarrow> progress \<Rightarrow> string list \<Rightarrow> bool" where
  "is_channel_completed channel_id p out \<longleftrightarrow>
     channel_id \<in> set (completed_channels p) \<or> safe_id channel_id \<in> set out"

definition attempts_of :: "queue_data \<Rightarrow> string \<Rightarrow> nat" where
  "attempts_of q channel_id =
     (case map_of (failed q) channel_id of Some r \<Rightarrow> attempts r | None \<Rightarrow> 0)"

text \<open>
  \<^verbatim>\<open>_record_channel_failure\<close>. The progress entry is the very dict stored in the queue;
  it is only ever changed here, where it is stored again, so the model stores the value.
\<close>

definition record_channel_failure ::
  "queue_data \<Rightarrow> progress \<Rightarrow> string \<Rightarrow> string \<Rightarrow> string \<Rightarrow> queue_data \<times> progress" where
  "record_channel_failure q p channel_id error now =
     (let r = (case map_of (failed q) channel_id of
                 Some old \<Rightarrow> old\<lparr>attempts := attempts old + 1, last_error := error\<rparr>
               | None \<Rightarrow> \<lparr>attempts = 1, last_error = error, first_failed_at = now\<rparr>)
      in (q\<lparr>failed := AList.update channel_id r (failed q)\<rparr>,
          p\<lparr>failed_channels := AList.update channel_id r (failed_channels p)\<rparr>))"

text \<open>
  \<^verbatim>\<open>_check_consecutive_failures\<close>: the loop over
  \<^verbatim>\<open>range(current_idx - 1, max(0, current_idx - 10), -1)\<close>, whose stop is exclusive.
  The identifier it takes from a dict entry is the value under \<^verbatim>\<open>'channel_id'\<close> alone.
  Every index of that range is positive and the guard keeps it below the length, so
  \<^verbatim>\<open>channels[i]\<close> never raises there; off the range the loop would end with IndexError.
\<close>

fun failure_key :: "channel_entry \<Rightarrow> string option" where
  "failure_key (EntryStr c) = Some c"
| "failure_key (EntryDict c h) = c"

fun count_consecutive :: "queue_data \<Rightarrow> int list \<Rightarrow> int \<Rightarrow> int" where
  "count_consecutive q [] consecutive = consecutive"
| "count_consecutive q (i # rest) consecutive =
     (if i \<ge> int (length (channels q)) then count_consecutive q rest consecutive
      else case channel_at (channels q) i of
        None \<Rightarrow> consecutive
      | Some entry \<Rightarrow>
          (case failure_key entry of
             None \<Rightarrow> consecutive
           | Some channel_id \<Rightarrow>
               if channel_id \<in> fst ` set (failed q)
               then count_consecutive q rest (consecutive + 1)
               else consecutive))"

definition check_consecutive_failures :: "queue_data \<Rightarrow> int" where
  "check_consecutive_failures q =
     (if failed q = [] then 0
      else count_consecutive q
             (rev [max 0 (current_index q - 10) + 1 .. current_index q - 1]) 0)"

section \<open>The scraping stage\<close>

definition emit :: "event list \<Rightarrow> run_state \<Rightarrow> run_state" where
  "emit evs s = s\<lparr>trace := trace s @ evs\<rparr>"

text \<open>\<^verbatim>\<open>save_queue_file(queue_file, queue_data)\<close> and \<^verbatim>\<open>save_progress(progress, queue_file)\<close>:
  the whole document is written over the file. \<^verbatim>\<open>save_progress\<close> first stamps the
  document it is given with the time, \<^verbatim>\<open>progress['last_updated'] = now\<close>.\<close>

definition save_queue_file :: "run_state \<Rightarrow> run_state" where
  "save_queue_file s = s\<lparr>queue_file := queue s, trace := trace s @ [SaveQueueFile (queue s)]\<rparr>"

definition save_progress :: "string \<Rightarrow> run_state \<Rightarrow> run_state" where
  "save_progress now s =
     s\<lparr>prog := (prog s)\<lparr>last_updated := Some now\<rparr>,
       progress_file := (prog s)\<lparr>last_updated := Some now\<rparr>,
       trace := trace s @ [SaveProgress ((prog s)\<lparr>last_updated := Some now\<rparr>)]\<rparr>"

definition set_current_index :: "int \<Rightarrow> run_state \<Rightarrow> run_state" where
  "set_current_index n s = s\<lparr>queue := (queue s)\<lparr>current_index := n\<rparr>\<rparr>"

definition record_failure :: "string \<Rightarrow> string \<Rightarrow> string \<Rightarrow> run_state \<Rightarrow> run_state" where
  "record_failure channel_id error now s =
     (case record_channel_failure (queue s) (prog s) channel_id error now of
        (q, p) \<Rightarrow> s\<lparr>queue := q, prog := p\<rparr>)"

text \<open>The browser restart check at the head of an attempt (every N channels).\<close>

definition restart_if_due :: "config \<Rightarrow> run_state \<Rightarrow> run_state" where
  "restart_if_due cfg s =
     (if channels_since_restart s \<ge> browser_restart_interval cfg
      then (emit [Cleanup, Sleep (Some 5), StartBrowser] s)
             \<lparr>channels_since_restart := 0, browser_restarts := browser_restarts s + 1\<rparr>
      else s)"

text \<open>The body of the \<^verbatim>\<open>try\<close> after \<^verbatim>\<open>scrape_channel\<close> and \<^verbatim>\<open>save_channel_data\<close> returned.\<close>

definition on_success :: "env \<Rightarrow> int \<Rightarrow> string \<Rightarrow> string \<Rightarrow> run_state \<Rightarrow> run_state" where
  "on_success e i channel_id saved_as s =
     emit [RandomDelay]
       (save_queue_file (save_progress (clock e i)
          (s\<lparr>output_dir := List.insert (safe_id saved_as) (output_dir s),
             prog := (prog s)\<lparr>completed_channels := completed_channels (prog s) @ [channel_id]\<rparr>,
             queue := (queue s)\<lparr>completed := completed (queue s) @ [channel_id],
                                 current_index := i + 1,
                                 failed := AList.delete channel_id (failed (queue s))\<rparr>,
             session_stats := (session_stats s)\<lparr>stat_success := stat_success (session_stats s) + 1\<rparr>,
             channels_since_restart := channels_since_restart s + 1,
             total_channels_scraped := total_channels_scraped s + 1\<rparr>)))"

text \<open>\<^verbatim>\<open>except ChannelSkippedException\<close>\<close>

definition on_skipped :: "int \<Rightarrow> run_state \<Rightarrow> run_state" where
  "on_skipped i s =
     save_queue_file (set_current_index (i + 1)
       (s\<lparr>session_stats := (session_stats s)\<lparr>stat_skipped := stat_skipped (session_stats s) + 1\<rparr>\<rparr>))"

text \<open>\<^verbatim>\<open>except ChannelNotFoundException\<close>\<close>

definition on_not_found :: "env \<Rightarrow> int \<Rightarrow> string \<Rightarrow> string \<Rightarrow> run_state \<Rightarrow> run_state" where
  "on_not_found e i channel_id error s =
     (let s1 = record_failure channel_id error (clock e i) s;
          s2 = s1\<lparr>session_stats := (session_stats s1)\<lparr>stat_failed := stat_failed (session_stats s1) + 1\<rparr>\<rparr>
      in save_progress (clock e i) (save_queue_file (set_current_index (i + 1) s2)))"

text \<open>\<^verbatim>\<open>except RateLimitException\<close>: no counter, no cursor and no file is touched.\<close>

definition on_rate_limited ::
  "config \<Rightarrow> env \<Rightarrow> int \<Rightarrow> string \<Rightarrow> nat \<Rightarrow> string \<Rightarrow> run_state \<Rightarrow> run_state" where
  "on_rate_limited cfg e i channel_id tried error s =
     (let s1 = record_failure channel_id error (clock e i) s
      in (emit [Cleanup, Sleep (calculate_cooldown cfg (int tried + 1)), StartBrowser] s1)
           \<lparr>channels_since_restart := 0\<rparr>)"

text \<open>\<^verbatim>\<open>except Exception\<close>, with the consecutive-failure check at its end.\<close>

definition on_error :: "env \<Rightarrow> int \<Rightarrow> string \<Rightarrow> string \<Rightarrow> run_state \<Rightarrow> run_state" where
  "on_error e i channel_id error s =
     (let s1 = record_failure channel_id error (clock e i) s;
          s2 = s1\<lparr>session_stats := (session_stats s1)\<lparr>stat_failed := stat_failed (session_stats s1) + 1\<rparr>,
                  total_channels_failed := total_channels_failed s1 + 1\<rparr>;
          s3 = save_progress (clock e i) (save_queue_file (set_current_index (i + 1) s2))
      in if check_consecutive_failures (queue s3) \<ge> 5
         then (emit [Cleanup, Sleep (Some 30), StartBrowser] s3)
                \<lparr>channels_since_restart := 0, browser_restarts := browser_restarts s3 + 1\<rparr>
         else s3)"

definition attempt_entity ::
  "config \<Rightarrow> env \<Rightarrow> int \<Rightarrow> string \<Rightarrow> nat \<Rightarrow> run_state \<Rightarrow> run_state" where
  "attempt_entity cfg e i channel_id tried s =
     (let s1 = emit [ScrapeChannel channel_id] s
      in case scrape e i of
           Success saved_as \<Rightarrow> on_success e i channel_id saved_as s1
         | Skipped \<Rightarrow> on_skipped i s1
         | NotFound error \<Rightarrow> on_not_found e i channel_id error s1
         | RateLimited error \<Rightarrow> on_rate_limited cfg e i channel_id tried error s1
         | TransientError error \<Rightarrow> on_error e i channel_id error s1)"

text \<open>
  One iteration of \<^verbatim>\<open>for i in range(start_index, total_channels)\<close>. \<open>Inl\<close> is an
  exception that leaves the loop: the shutdown request, \<^verbatim>\<open>channels[i]\<close> out of range, or
  \<^verbatim>\<open>.replace\<close> on a \<open>None\<close> identifier inside \<^verbatim>\<open>is_channel_completed\<close>; all three are
  raised before the iteration changed anything.
\<close>

definition scrape_step :: "config \<Rightarrow> env \<Rightarrow> int \<Rightarrow> run_state \<Rightarrow> halt + run_state" where
  "scrape_step cfg e i s =
     (if shutdown_requested e i then Inl GracefulExit
      else case channel_at (channels (queue s)) i of
        None \<Rightarrow> Inl IndexError
      | Some entry \<Rightarrow>
          (case channel_id_of entry of
             None \<Rightarrow> Inl AttributeError
           | Some channel_id \<Rightarrow>
               if is_channel_completed channel_id (prog s) (output_dir s)
               then Inr (s\<lparr>session_stats :=
                             (session_stats s)\<lparr>stat_skipped := stat_skipped (session_stats s) + 1\<rparr>\<rparr>)
               else if int (attempts_of (queue s) channel_id) \<ge> max_channel_retries cfg
               then Inr (s\<lparr>session_stats :=
                             (session_stats s)\<lparr>stat_failed := stat_failed (session_stats s) + 1\<rparr>\<rparr>)
               else Inr (attempt_entity cfg e i channel_id (attempts_of (queue s) channel_id)
                           (restart_if_due cfg s))))"

fun scrape_loop :: "config \<Rightarrow> env \<Rightarrow> int list \<Rightarrow> run_state \<Rightarrow> halt option \<times> run_state" where
  "scrape_loop cfg e [] s = (None, s)"
| "scrape_loop cfg e (i # rest) s =
     (case scrape_step cfg e i s of
        Inl h \<Rightarrow> (Some h, s)
      | Inr s' \<Rightarrow> scrape_loop cfg e rest s')"

definition zero_stats :: stats where
  "zero_stats = \<lparr>stat_success = 0, stat_failed = 0, stat_skipped = 0\<rparr>"

text \<open>
  The state in which \<^verbatim>\<open>run_scraping\<close> enters its loop, from the two documents as loaded,
  the output directory and the counters of the orchestration state.
\<close>

definition initial_state ::
  "queue_data \<Rightarrow> progress \<Rightarrow> string list \<Rightarrow> int \<times> int \<times> int \<Rightarrow> run_state" where
  "initial_state q p out counters =
     \<lparr>queue = q, prog = p, output_dir = out, session_stats = zero_stats,
      channels_since_restart = 0,
      browser_restarts = fst counters,
      total_channels_scraped = fst (snd counters),
      total_channels_failed = snd (snd counters),
      queue_file = q, progress_file = p, trace = [StartBrowser]\<rparr>"

text \<open>
  \<^verbatim>\<open>run_scraping\<close>: an empty queue returns at once; otherwise the loop runs from the saved
  cursor to the end, and the \<^verbatim>\<open>finally\<close> block closes the browser and writes both
  documents whether the loop ended or raised. The result is the exception, if any, and
  the final state, whose \<open>session_stats\<close> are the counts returned.
\<close>

definition run_scraping ::
  "config \<Rightarrow> env \<Rightarrow> queue_data \<Rightarrow> progress \<Rightarrow> string list \<Rightarrow> int \<times> int \<times> int
     \<Rightarrow> halt option \<times> run_state" where
  "run_scraping cfg e q p out counters =
     (if channels q = [] then (None, (initial_state q p out counters)\<lparr>trace := []\<rparr>)
      else case scrape_loop cfg e [current_index q .. int (length (channels q)) - 1]
                  (initial_state q p out counters) of
        (h, s) \<Rightarrow> (h, save_progress (finished_at e) (save_queue_file (emit [Cleanup] s))))"

text \<open>
  The state in which the loop of \<^verbatim>\<open>run_scraping\<close> stands when index \<open>m\<close> is the next
  to be processed (or in which an exception left it before): the states a run passes
  through are these, for \<open>m\<close> from the starting cursor to the length of the queue.
\<close>

definition state_before :: "config \<Rightarrow> env \<Rightarrow> run_state \<Rightarrow> int \<Rightarrow> run_state" where
  "state_before cfg e s0 m = snd (scrape_loop cfg e [current_index (queue s0) .. m - 1] s0)"

section \<open>A three-entity scenario\<close>

text \<open>
  The queue \<^verbatim>\<open>["a", "b", "c"]\<close> with the cursor at 0, nothing completed and nothing failed,
  an empty progress document, and a scraper that succeeds on the first entity, finds the
  second missing and is rate limited on the third.
\<close>

definition scenario_queue :: queue_data where
  "scenario_queue = \<lparr>channels = [EntryStr ''a'', EntryStr ''b'', EntryStr ''c''],
     completed = [], failed = [], current_index = 0\<rparr>"

definition empty_progress :: progress where
  "empty_progress = \<lparr>completed_channels = [], failed_channels = [], last_updated = None\<rparr>"

definition scenario_env :: env where
  "scenario_env = \<lparr>scrape = (\<lambda>i. if i = 0 then Success ''a''
                              else if i = 1 then NotFound ''Channel not found: b''
                              else RateLimited ''rate limited''),
     shutdown_requested = (\<lambda>i. False),
     clock = (\<lambda>i. ''2026-01-01T00:00:00+00:00''),
     finished_at = ''2026-01-01T00:30:00+00:00''\<rparr>"

definition scenario_start :: run_state where
  "scenario_start = initial_state scenario_queue empty_progress [] (0, 0, 0)"

text \<open>A scraper that gives the same outcome for every entity, with no shutdown request.\<close>

definition always :: "outcome \<Rightarrow> env" where
  "always out = \<lparr>scrape = (\<lambda>i. out), shutdown_requested = (\<lambda>i. False),
                  clock = (\<lambda>i. ''2026-01-01T00:00:00+00:00''),
                  finished_at = ''2026-01-01T00:30:00+00:00''\<rparr>"

text \<open>The effects an iteration added to the trace.\<close>

definition new_events :: "run_state \<Rightarrow> run_state \<Rightarrow> event list" where
  "new_events s s' = drop (length (trace s)) (trace s')"

text \<open>A fresh queue of five entities.\<close>

definition five_queue :: queue_data where
  "five_queue = \<lparr>channels = map EntryStr [''a'', ''b'', ''c'', ''d'', ''e''],
     completed = [], failed = [], current_index = 0\<rparr>"

text \<open>The browser sessions opened and closed, in order.\<close>

definition browser_events :: "event list \<Rightarrow> event list" where
  "browser_events evs = filter (\<lambda>ev. ev = StartBrowser \<or> ev = Cleanup) evs"

text \<open>
  The state in which a run over the fresh queue of five entities ends when every scrape
  raises an ordinary exception.
\<close>

definition run_of_five_errors :: run_state where
  "run_of_five_errors = snd (run_scraping initial_config (always (TransientError ''timeout''))
                               five_queue empty_progress [] (0, 0, 0))"

section \<open>Loading the queue file\<close>

text \<open>
  What is at a path: nothing, something that cannot be opened for reading, or bytes.
  \<^verbatim>\<open>open\<close> raises on the first two; \<^verbatim>\<open>json.load\<close>, a library function taken as a
  parameter, returns the document or raises on bytes that are not a JSON document.
\<close>

datatype file_state = Missing | Unreadable | Content string

datatype load_error = FileNotFoundError | PermissionError | JSONDecodeError

definition open_read :: "(string \<Rightarrow> file_state) \<Rightarrow> string \<Rightarrow> load_error + string" where
  "open_read fs path =
     (case fs path of
        Missing \<Rightarrow> Inl FileNotFoundError
      | Unreadable \<Rightarrow> Inl PermissionError
      | Content bytes \<Rightarrow> Inr bytes)"

definition default_queue :: queue_data where
  "default_queue = \<lparr>channels = [], completed = [], failed = [], current_index = 0\<rparr>"

text \<open>
  \<^verbatim>\<open>load_queue_file\<close>: the \<^verbatim>\<open>try\<close> block opens and parses; \<^verbatim>\<open>except Exception\<close> turns every
  exception of the block into the default document. \<open>Inl\<close> would be an exception
  leaving the function.
\<close>

definition load_queue_file ::
  "(string \<Rightarrow> load_error + queue_data) \<Rightarrow> (string \<Rightarrow> file_state) \<Rightarrow> string \<Rightarrow> load_error + queue_data" where
  "load_queue_file json_load fs path =
     (case (case open_read fs path of
              Inl ex \<Rightarrow> Inl ex
            | Inr bytes \<Rightarrow> json_load bytes) of
        Inl ex \<Rightarrow> Inr default_queue
      | Inr doc \<Rightarrow> Inr doc)"

section \<open>The discovery stage\<close>

text \<open>
  The progress document of \<^verbatim>\<open>discover_channels\<close>. The local \<^verbatim>\<open>failed_queries\<close> and
  \<^verbatim>\<open>all_channels\<close> are the very objects stored in the document, and the local set of
  completed queries is copied into it whenever it changes, so the document alone is the
  state; the set is kept as a list in the order of completion. A discovered channel is
  represented by its identifier. The two bookkeeping entries that \<^verbatim>\<open>_save_progress\<close> adds
  on every write (the identifiers seen so far and the time of the write) are left out.
\<close>

record progress_data =
  current_query_index :: int
  completed_queries :: "string list"
  failed_queries :: "(string \<times> int) list"
  discovered_channels :: "string list"
  discovery_completed :: bool

text \<open>
  What the browser operations inside \<^verbatim>\<open>_search_youtube_directly\<close> do for one query: they
  yield the channels found, raise an \<^verbatim>\<open>Exception\<close> (a timeout, a missing selector), or are
  interrupted from the keyboard.
\<close>

datatype page_result = Found "string list" | PageError string | PageInterrupted

text \<open>
  What a search call can do as seen from \<^verbatim>\<open>discover_channels\<close>: return channels, raise an
  \<^verbatim>\<open>Exception\<close>, or let an interrupt through, which \<^verbatim>\<open>except Exception\<close> does not catch.
\<close>

datatype search_result = Channels "string list" | Raised string | KeyboardInterrupt

text \<open>
  \<^verbatim>\<open>_search_youtube_directly\<close>: its whole body is inside \<^verbatim>\<open>try ... except Exception\<close>, whose
  handler logs the error and falls through to \<^verbatim>\<open>return channels\<close>. Every statement that can
  raise into that handler runs before a channel is appended (errors on a single result are
  caught inside the loop), so after an error the list returned is empty. It never raises
  an \<^verbatim>\<open>Exception\<close> to its caller.
\<close>

definition search_youtube_directly :: "page_result \<Rightarrow> search_result" where
  "search_youtube_directly r =
     (case r of
        Found found \<Rightarrow> Channels found
      | PageError error \<Rightarrow> Channels []
      | PageInterrupted \<Rightarrow> KeyboardInterrupt)"

datatype discovery_halt = Interrupted | QueryIndexError

text \<open>The state of the loop: the document, the progress file as last written (if
  written at all) and the queries issued to the search so far.\<close>

record discovery_state =
  progress_doc :: progress_data
  saved_progress :: "progress_data option"
  searched :: "string list"

definition fresh_progress :: progress_data where
  "fresh_progress = \<lparr>current_query_index = 0, completed_queries = [], failed_queries = [],
     discovered_channels = [], discovery_completed = False\<rparr>"

definition query_at :: "string list \<Rightarrow> int \<Rightarrow> string option" where
  "query_at qs i =
     (if 0 \<le> i \<and> i < int (length qs) then Some (qs ! nat i)
      else if - int (length qs) \<le> i \<and> i < 0 then Some (qs ! nat (int (length qs) + i))
      else None)"

definition save_discovery :: "discovery_state \<Rightarrow> discovery_state" where
  "save_discovery s = s\<lparr>saved_progress := Some (progress_doc s)\<rparr>"

text \<open>\<^verbatim>\<open>failed_queries[query] = failed_queries.get(query, 0) + 1\<close>\<close>

definition count_failure :: "string \<Rightarrow> (string \<times> int) list \<Rightarrow> (string \<times> int) list" where
  "count_failure query fq =
     AList.update query ((case map_of fq query of Some n \<Rightarrow> n | None \<Rightarrow> 0) + 1) fq"

text \<open>
  One iteration of \<^verbatim>\<open>for i in range(start_index, len(queries))\<close>; the first component
  of the result is the exception that leaves the loop, if any. The success path marks
  the query completed and moves the cursor of the document; the \<^verbatim>\<open>except Exception\<close> path
  counts the failure; both write the file. Anything else is caught by the outer handlers,
  which write the file and raise again.
\<close>

definition discover_step ::
  "bool \<Rightarrow> (int \<Rightarrow> search_result) \<Rightarrow> string list \<Rightarrow> int \<Rightarrow> discovery_state
     \<Rightarrow> discovery_halt option \<times> discovery_state" where
  "discover_step use_youtube_search search queries i s =
     (case query_at queries i of
        None \<Rightarrow> (Some QueryIndexError, s)
      | Some query \<Rightarrow>
          if query \<in> set (completed_queries (progress_doc s)) then (None, s)
          else if \<not> use_youtube_search
          then (None, save_discovery (s\<lparr>progress_doc := (progress_doc s)
                 \<lparr>completed_queries := completed_queries (progress_doc s) @ [query],
                  current_query_index := i + 1\<rparr>\<rparr>))
          else (case search i of
             Channels yt_channels \<Rightarrow>
               (None, save_discovery (s\<lparr>searched := searched s @ [query],
                 progress_doc := (progress_doc s)
                   \<lparr>discovered_channels := discovered_channels (progress_doc s) @ yt_channels,
                    completed_queries := completed_queries (progress_doc s) @ [query],
                    current_query_index := i + 1\<rparr>\<rparr>))
           | Raised error \<Rightarrow>
               (None, save_discovery (s\<lparr>searched := searched s @ [query],
                 progress_doc := (progress_doc s)
                   \<lparr>failed_queries := count_failure query (failed_queries (progress_doc s))\<rparr>\<rparr>))
           | KeyboardInterrupt \<Rightarrow>
               (Some Interrupted, s\<lparr>searched := searched s @ [query]\<rparr>)))"

fun discover_loop ::
  "bool \<Rightarrow> (int \<Rightarrow> search_result) \<Rightarrow> string list \<Rightarrow> int list \<Rightarrow> discovery_state
     \<Rightarrow> discovery_halt option \<times> discovery_state" where
  "discover_loop use_youtube_search search queries [] s = (None, s)"
| "discover_loop use_youtube_search search queries (i # rest) s =
     (case discover_step use_youtube_search search queries i s of
        (Some h, s') \<Rightarrow> (Some h, s')
      | (None, s') \<Rightarrow> discover_loop use_youtube_search search queries rest s')"

text \<open>
  \<^verbatim>\<open>discover_channels\<close> from the progress it starts with (fresh, or loaded on resume): the
  loop from the saved cursor, then either the handlers' write before the exception
  leaves, or the completion mark and the last write.
\<close>

definition discover_channels ::
  "bool \<Rightarrow> (int \<Rightarrow> search_result) \<Rightarrow> string list \<Rightarrow> progress_data
     \<Rightarrow> discovery_halt option \<times> discovery_state" where
  "discover_channels use_youtube_search search queries start =
     (case discover_loop use_youtube_search search queries
             [current_query_index start .. int (length queries) - 1]
             \<lparr>progress_doc = start\<lparr>discovery_completed := False\<rparr>,
              saved_progress = None, searched = []\<rparr> of
        (Some h, s) \<Rightarrow> (Some h, save_discovery s)
      | (None, s) \<Rightarrow>
          (None, save_discovery (s\<lparr>progress_doc := (progress_doc s)\<lparr>discovery_completed := True\<rparr>\<rparr>)))"

text \<open>
  The stage as it runs: YouTube search switched on, every search call made through
  \<^verbatim>\<open>_search_youtube_directly\<close> on what the browser does for the query at that position.
\<close>

definition discover :: "(int \<Rightarrow> page_result) \<Rightarrow> string list \<Rightarrow> progress_data
     \<Rightarrow> discovery_halt option \<times> discovery_state" where
  "discover page queries start =
     discover_channels True (\<lambda>i. search_youtube_directly (page i)) queries start"

text \<open>A browser in which every search page times out.\<close>

definition timeout_page :: "int \<Rightarrow> page_result" where
  "timeout_page i = PageError ''Timeout 30000ms exceeded''"

section \<open>Positions below the cursor\<close>

text \<open>
  The entity at position \<open>p\<close> is resolved when its identifier is in the completed list
  of the queue or a key of its failed map. It is accounted for, in a run that started in
  \<open>s0\<close>, when it is resolved, or \<^verbatim>\<open>is_channel_completed\<close> held for it in the state in which
  the loop reached position \<open>p\<close> (the global progress listed it or its artifact existed,
  so the loop passed it over), or the scraper reported it as skipped.
\<close>

definition resolved :: "run_state \<Rightarrow> int \<Rightarrow> bool" where
  "resolved s p \<longleftrightarrow>
     (case channel_at (channels (queue s)) p of
        None \<Rightarrow> False
      | Some entry \<Rightarrow>
          (case channel_id_of entry of
             None \<Rightarrow> False
           | Some channel_id \<Rightarrow>
               channel_id \<in> set (completed (queue s))
               \<or> channel_id \<in> fst ` set (failed (queue s))))"

definition accounted :: "config \<Rightarrow> env \<Rightarrow> run_state \<Rightarrow> run_state \<Rightarrow> int \<Rightarrow> bool" where
  "accounted cfg e s0 s p \<longleftrightarrow>
     (case channel_at (channels (queue s)) p of
        None \<Rightarrow> False
      | Some entry \<Rightarrow>
          (case channel_id_of entry of
             None \<Rightarrow> False
           | Some channel_id \<Rightarrow>
               channel_id \<in> set (completed (queue s))
               \<or> channel_id \<in> fst ` set (failed (queue s))
               \<or> is_channel_completed channel_id (prog (state_before cfg e s0 p))
                                                  (output_dir (state_before cfg e s0 p))
               \<or> scrape e p = Skipped))"

text \<open>The scenario queue resumed after its first entity was completed.\<close>

definition resumed_start :: run_state where
  "resumed_start = initial_state (scenario_queue\<lparr>completed := [''a''], current_index := 1\<rparr>)
                     \<lparr>completed_channels = [''a''], failed_channels = [],
                      last_updated = Some ''2025-12-31T00:00:00+00:00''\<rparr> [''a''] (0, 1, 0)"

text \<open>The fresh scenario queue when the artifact of "a" is already in the output directory.\<close>

definition artifact_start :: run_state where
  "artifact_start = initial_state scenario_queue empty_progress [''a''] (0, 0, 0)"

section \<open>Running the stage again\<close>

text \<open>
  An entity is passed over before any scrape when \<^verbatim>\<open>is_channel_completed\<close> holds for it or
  its retry budget is used up: the two \<^verbatim>\<open>continue\<close> branches at the head of the loop body.
\<close>

definition pre_skipped :: "config \<Rightarrow> run_state \<Rightarrow> int \<Rightarrow> bool" where
  "pre_skipped cfg s p \<longleftrightarrow>
     (case channel_at (channels (queue s)) p of
        None \<Rightarrow> False
      | Some entry \<Rightarrow>
          (case channel_id_of entry of
             None \<Rightarrow> False
           | Some channel_id \<Rightarrow>
               is_channel_completed channel_id (prog s) (output_dir s)
               \<or> int (attempts_of (queue s) channel_id) \<ge> max_channel_retries cfg))"

fun is_scrape :: "event \<Rightarrow> bool" where
  "is_scrape (ScrapeChannel c) = True"
| "is_scrape ev = False"

text \<open>
  The stage run again on what a run left behind: the queue file and the progress file as
  last written, and the output directory.
\<close>

definition rerun :: "config \<Rightarrow> env \<Rightarrow> int \<times> int \<times> int \<Rightarrow> run_state \<Rightarrow> halt option \<times> run_state" where
  "rerun cfg e counters s =
     run_scraping cfg e (queue_file s) (progress_file s) (output_dir s) counters"

text \<open>The first pass over the scenario queue, and a pass over the five entities in which
  every scrape fails.\<close>

definition scenario_first_run :: run_state where
  "scenario_first_run =
     snd (run_scraping initial_config scenario_env scenario_queue empty_progress [] (0, 0, 0))"

text \<open>A progress document that already lists the second and third entity of the scenario.\<close>

definition later_done_progress :: progress where
  "later_done_progress = \<lparr>completed_channels = [''b'', ''c''], failed_channels = [],
     last_updated = Some ''2025-12-31T00:00:00+00:00''\<rparr>"

section \<open>A rate limit followed by a success\<close>

text \<open>
  The queue \<^verbatim>\<open>["a", "b"]\<close>, fresh, with a scraper that is rate limited on "a" and then
  succeeds on "b"; and the state in which that run ends.
\<close>

definition two_queue :: queue_data where
  "two_queue = \<lparr>channels = [EntryStr ''a'', EntryStr ''b''], completed = [], failed = [],
     current_index = 0\<rparr>"

definition limited_then_ok :: env where
  "limited_then_ok = \<lparr>scrape = (\<lambda>i. if i = 0 then RateLimited ''rate limited'' else Success ''b''),
     shutdown_requested = (\<lambda>i. False),
     clock = (\<lambda>i. ''2026-01-01T00:00:00+00:00''),
     finished_at = ''2026-01-01T00:30:00+00:00''\<rparr>"

definition limited_first_run :: run_state where
  "limited_first_run =
     snd (run_scraping initial_config limited_then_ok two_queue empty_progress [] (0, 0, 0))"

text \<open>The state in which a run over the fresh scenario queue ends when every entity is
  found missing.\<close>

definition all_missing_first_run :: run_state where
  "all_missing_first_run =
     snd (run_scraping initial_config (always (NotFound ''gone'')) scenario_queue empty_progress []
            (0, 0, 0))"

section \<open>Backoff correctness\<close>

lemma calculate_cooldown_formula:
  "1 \<le> k \<Longrightarrow> calculate_cooldown cfg k =
     Some (min (cooldown_after_failure cfg * cooldown_multiplier cfg ^ nat (k - 1)) (max_cooldown cfg))"
  by (simp add: calculate_cooldown_def)

lemma calculate_cooldown_le_max:
  "calculate_cooldown cfg k = Some c \<Longrightarrow> c \<le> max_cooldown cfg"
  by (auto simp: calculate_cooldown_def split: if_splits)

lemma int_le_two_power: "int n + 1 \<le> 2 ^ n"
proof (induction n)
  case 0
  show ?case by simp
next
  case (Suc n)
  have "(1::int) \<le> 2 ^ n" by simp
  with Suc show ?case by simp
qed

lemma backoff_grows:
  assumes b: "1 \<le> (b::int)" and m: "2 \<le> (m::int)"
  shows "int n + 1 \<le> b * m ^ n"
proof -
  have "int n + 1 \<le> 2 ^ n" by (rule int_le_two_power)
  also have "(2::int) ^ n \<le> m ^ n" using m by (intro power_mono) simp_all
  also have "m ^ n \<le> b * m ^ n"
  proof -
    have "(0::int) \<le> m ^ n" using m by simp
    then have "1 * m ^ n \<le> b * m ^ n" using b by (rule mult_right_mono [rotated])
    then show ?thesis by (simp only: mult_1)
  qed
  finally show ?thesis .
qed

lemma calculate_cooldown_clamped:
  assumes "1 \<le> cooldown_after_failure cfg" and "2 \<le> cooldown_multiplier cfg"
    and "1 \<le> k" and "max_cooldown cfg \<le> k"
  shows "calculate_cooldown cfg k = Some (max_cooldown cfg)"
proof -
  have "int (nat (k - 1)) + 1 \<le> cooldown_after_failure cfg * cooldown_multiplier cfg ^ nat (k - 1)"
    using assms(1,2) by (rule backoff_grows)
  then have "max_cooldown cfg \<le> cooldown_after_failure cfg * cooldown_multiplier cfg ^ nat (k - 1)"
    using assms(3,4) by simp
  then show ?thesis using assms(3) by (simp add: calculate_cooldown_def min_def)
qed

lemma calculate_cooldown_initial_config:
  "map (calculate_cooldown initial_config) [1, 2, 3, 4, 5]
     = [Some 60, Some 120, Some 240, Some 480, Some 600]"
  by (simp add: calculate_cooldown_def initial_config_def)

text \<open>
  Claim C1. For every attempt \<open>k \<ge> 1\<close> the cooldown calculator returns
  \<open>min (base * multiplier ^ (k - 1)) max_cooldown\<close>, a function of the three tunables
  and the attempt alone. In particular the first cooldown is the base and the second is
  base times multiplier (each where the ceiling does not cut it), the result never
  exceeds the ceiling and equals it for every large attempt (for a base of at least 1
  and a multiplier of at least 2, every attempt from \<open>max_cooldown\<close> on), and with
  base 60, multiplier 2 and ceiling 600 the attempts 1 to 5 give 60, 120, 240, 480, 600.
\<close>

theorem calculate_cooldown_correct:
  assumes "1 \<le> k"
  shows "calculate_cooldown cfg k =
           Some (min (cooldown_after_failure cfg * cooldown_multiplier cfg ^ nat (k - 1))
                     (max_cooldown cfg))
       \<and> (cooldown_after_failure cfg \<le> max_cooldown cfg \<longrightarrow>
            calculate_cooldown cfg 1 = Some (cooldown_after_failure cfg))
       \<and> (cooldown_after_failure cfg * cooldown_multiplier cfg \<le> max_cooldown cfg \<longrightarrow>
            calculate_cooldown cfg 2 = Some (cooldown_after_failure cfg * cooldown_multiplier cfg))
       \<and> (\<forall>c. calculate_cooldown cfg k = Some c \<longrightarrow> c \<le> max_cooldown cfg)
       \<and> (1 \<le> cooldown_after_failure cfg \<and> 2 \<le> cooldown_multiplier cfg \<and> max_cooldown cfg \<le> k
            \<longrightarrow> calculate_cooldown cfg k = Some (max_cooldown cfg))
       \<and> map (calculate_cooldown initial_config) [1, 2, 3, 4, 5]
            = [Some 60, Some 120, Some 240, Some 480, Some 600]"
proof (intro conjI impI allI)
  show "calculate_cooldown cfg k =
      Some (min (cooldown_after_failure cfg * cooldown_multiplier cfg ^ nat (k - 1)) (max_cooldown cfg))"
    using assms by (rule calculate_cooldown_formula)
next
  assume "cooldown_after_failure cfg \<le> max_cooldown cfg"
  then show "calculate_cooldown cfg 1 = Some (cooldown_after_failure cfg)"
    by (simp add: calculate_cooldown_def)
next
  assume "cooldown_after_failure cfg * cooldown_multiplier cfg \<le> max_cooldown cfg"
  then show "calculate_cooldown cfg 2 = Some (cooldown_after_failure cfg * cooldown_multiplier cfg)"
    by (simp add: calculate_cooldown_def)
next
  fix c assume "calculate_cooldown cfg k = Some c"
  then show "c \<le> max_cooldown cfg" by (rule calculate_cooldown_le_max)
next
  assume "1 \<le> cooldown_after_failure cfg \<and> 2 \<le> cooldown_multiplier cfg \<and> max_cooldown cfg \<le> k"
  then show "calculate_cooldown cfg k = Some (max_cooldown cfg)"
    using assms by (intro calculate_cooldown_clamped) simp_all
next
  show "map (calculate_cooldown initial_config) [1, 2, 3, 4, 5]
      = [Some 60, Some 120, Some 240, Some 480, Some 600]"
    by (rule calculate_cooldown_initial_config)
qed

theorem calculate_cooldown_correct_witness:
  "(1::int) \<le> 700
   \<and> calculate_cooldown initial_config 700 = Some 600
   \<and> calculate_cooldown initial_config 1 = Some 60
   \<and> calculate_cooldown initial_config 2 = Some 120"
  using calculate_cooldown_correct [of 700 initial_config]
  by (simp add: initial_config_def)

section \<open>One iteration, case by case\<close>

lemmas handler_defs = attempt_entity_def on_success_def on_skipped_def on_not_found_def
  on_rate_limited_def on_error_def restart_if_due_def save_progress_def save_queue_file_def
  set_current_index_def record_failure_def emit_def Let_def

lemma scrape_step_cases [consumes 1, case_names completed retries success skipped not_found rate_limited error]:
  assumes "scrape_step cfg e i s = Inr s'"
  obtains
    (completed) entry cid where "channel_at (channels (queue s)) i = Some entry"
      "channel_id_of entry = Some cid" "is_channel_completed cid (prog s) (output_dir s)"
      "queue s' = queue s" "prog s' = prog s" "output_dir s' = output_dir s" "trace s' = trace s"
      "queue_file s' = queue_file s" "progress_file s' = progress_file s"
  | (retries) entry cid where "channel_at (channels (queue s)) i = Some entry"
      "channel_id_of entry = Some cid" "\<not> is_channel_completed cid (prog s) (output_dir s)"
      "int (attempts_of (queue s) cid) \<ge> max_channel_retries cfg"
      "queue s' = queue s" "prog s' = prog s" "output_dir s' = output_dir s" "trace s' = trace s"
      "queue_file s' = queue_file s" "progress_file s' = progress_file s"
  | (success) entry cid d where "channel_at (channels (queue s)) i = Some entry"
      "channel_id_of entry = Some cid" "\<not> is_channel_completed cid (prog s) (output_dir s)"
      "int (attempts_of (queue s) cid) < max_channel_retries cfg"
      "scrape e i = Success d"
      "queue s' = (queue s)\<lparr>completed := completed (queue s) @ [cid], current_index := i + 1,
                     failed := AList.delete cid (failed (queue s))\<rparr>"
      "prog s' = (prog s)\<lparr>completed_channels := completed_channels (prog s) @ [cid],
                           last_updated := Some (clock e i)\<rparr>"
      "output_dir s' = List.insert (safe_id d) (output_dir s)"
      "queue_file s' = queue s'" "progress_file s' = prog s'"
  | (skipped) entry cid where "channel_at (channels (queue s)) i = Some entry"
      "channel_id_of entry = Some cid" "\<not> is_channel_completed cid (prog s) (output_dir s)"
      "int (attempts_of (queue s) cid) < max_channel_retries cfg"
      "scrape e i = Skipped"
      "queue s' = (queue s)\<lparr>current_index := i + 1\<rparr>" "prog s' = prog s"
      "output_dir s' = output_dir s" "queue_file s' = queue s'" "progress_file s' = progress_file s"
  | (not_found) entry cid m where "channel_at (channels (queue s)) i = Some entry"
      "channel_id_of entry = Some cid" "\<not> is_channel_completed cid (prog s) (output_dir s)"
      "int (attempts_of (queue s) cid) < max_channel_retries cfg"
      "scrape e i = NotFound m"
      "queue s' = (fst (record_channel_failure (queue s) (prog s) cid m (clock e i)))\<lparr>current_index := i + 1\<rparr>"
      "prog s' = (snd (record_channel_failure (queue s) (prog s) cid m (clock e i)))
                   \<lparr>last_updated := Some (clock e i)\<rparr>"
      "output_dir s' = output_dir s" "queue_file s' = queue s'" "progress_file s' = prog s'"
  | (rate_limited) entry cid m where "channel_at (channels (queue s)) i = Some entry"
      "channel_id_of entry = Some cid" "\<not> is_channel_completed cid (prog s) (output_dir s)"
      "int (attempts_of (queue s) cid) < max_channel_retries cfg"
      "scrape e i = RateLimited m"
      "queue s' = fst (record_channel_failure (queue s) (prog s) cid m (clock e i))"
      "prog s' = snd (record_channel_failure (queue s) (prog s) cid m (clock e i))"
      "output_dir s' = output_dir s" "queue_file s' = queue_file s" "progress_file s' = progress_file s"
  | (error) entry cid m where "channel_at (channels (queue s)) i = Some entry"
      "channel_id_of entry = Some cid" "\<not> is_channel_completed cid (prog s) (output_dir s)"
      "int (attempts_of (queue s) cid) < max_channel_retries cfg"
      "scrape e i = TransientError m"
      "queue s' = (fst (record_channel_failure (queue s) (prog s) cid m (clock e i)))\<lparr>current_index := i + 1\<rparr>"
      "prog s' = (snd (record_channel_failure (queue s) (prog s) cid m (clock e i)))
                   \<lparr>last_updated := Some (clock e i)\<rparr>"
      "output_dir s' = output_dir s" "queue_file s' = queue s'" "progress_file s' = prog s'"
proof -
  from assms obtain entry cid where
    ent: "channel_at (channels (queue s)) i = Some entry" and cid: "channel_id_of entry = Some cid"
    by (auto simp: scrape_step_def split: if_splits option.splits)
  show thesis
  proof (cases "is_channel_completed cid (prog s) (output_dir s)")
    case True
    with assms ent cid show thesis
      by (intro completed [of entry cid]) (auto simp: scrape_step_def split: if_splits)
  next
    case nc: False
    show thesis
    proof (cases "int (attempts_of (queue s) cid) \<ge> max_channel_retries cfg")
      case True
      with assms ent cid nc show thesis
        by (intro retries [of entry cid]) (auto simp: scrape_step_def split: if_splits)
    next
      case False
      then have lt: "int (attempts_of (queue s) cid) < max_channel_retries cfg" by simp
      from assms ent cid nc False
      have s': "s' = attempt_entity cfg e i cid (attempts_of (queue s) cid) (restart_if_due cfg s)"
        by (auto simp: scrape_step_def split: if_splits)
      show thesis
      proof (cases "scrape e i")
        case (Success d)
        show thesis
          by (rule success [OF ent cid nc lt Success]) (simp_all add: s' Success handler_defs)
      next
        case Skipped
        show thesis
          by (rule skipped [OF ent cid nc lt Skipped]) (simp_all add: s' Skipped handler_defs)
      next
        case (NotFound m)
        show thesis
          by (rule not_found [OF ent cid nc lt NotFound])
             (simp_all add: s' NotFound handler_defs split: prod.splits)
      next
        case (RateLimited m)
        show thesis
          by (rule rate_limited [OF ent cid nc lt RateLimited])
             (simp_all add: s' RateLimited handler_defs split: prod.splits)
      next
        case (TransientError m)
        show thesis
          by (rule error [OF ent cid nc lt TransientError])
             (simp_all add: s' TransientError handler_defs split: prod.splits)
      qed
    qed
  qed
qed

section \<open>The cursor over a run\<close>

lemma scrape_loop_append:
  "scrape_loop cfg e (xs @ ys) s =
     (case scrape_loop cfg e xs s of
        (Some h, s') \<Rightarrow> (Some h, s')
      | (None, s') \<Rightarrow> scrape_loop cfg e ys s')"
  by (induction xs arbitrary: s) (auto split: sum.splits)

lemma record_channel_failure_fields:
  "current_index (fst (record_channel_failure q p c m t)) = current_index q"
  "channels (fst (record_channel_failure q p c m t)) = channels q"
  "completed (fst (record_channel_failure q p c m t)) = completed q"
  "completed_channels (snd (record_channel_failure q p c m t)) = completed_channels p"
  "fst ` set (failed (fst (record_channel_failure q p c m t))) = insert c (fst ` set (failed q))"
  by (simp_all add: record_channel_failure_def Let_def dom_update [unfolded dom_map_of_conv_image_fst] )

lemma scrape_step_current_index:
  assumes "scrape_step cfg e i s = Inr s'"
  shows "current_index (queue s') = current_index (queue s) \<or> current_index (queue s') = i + 1"
  using assms by (cases rule: scrape_step_cases) (simp_all add: record_channel_failure_fields)

lemma scrape_step_channels:
  assumes "scrape_step cfg e i s = Inr s'"
  shows "channels (queue s') = channels (queue s)"
  using assms by (cases rule: scrape_step_cases) (simp_all add: record_channel_failure_fields)

lemma scrape_loop_upto_current_index:
  "current_index (queue s) \<le> a \<Longrightarrow>
   current_index (queue s) \<le> current_index (queue (snd (scrape_loop cfg e [a..b] s)))
   \<and> current_index (queue (snd (scrape_loop cfg e [a..b] s))) \<le> max (current_index (queue s)) (b + 1)"
proof (induction a b arbitrary: s rule: upto.induct)
  case (1 a b)
  show ?case
  proof (cases "a \<le> b")
    case False
    then show ?thesis by simp
  next
    case True
    then have list: "[a..b] = a # [a + 1..b]" by (simp add: upto_rec1)
    show ?thesis
    proof (cases "scrape_step cfg e a s")
      case (Inl h)
      then show ?thesis by (simp add: list)
    next
      case (Inr s')
      from scrape_step_current_index [OF Inr] "1.prems"
      have le: "current_index (queue s) \<le> current_index (queue s')"
        and up: "current_index (queue s') \<le> a + 1" by auto
      from "1.IH" [OF True up]
      have "current_index (queue s') \<le> current_index (queue (snd (scrape_loop cfg e [a + 1..b] s')))"
        and "current_index (queue (snd (scrape_loop cfg e [a + 1..b] s'))) \<le> max (current_index (queue s')) (b + 1)"
        by simp_all
      with le up True show ?thesis by (simp add: list Inr)
    qed
  qed
qed

lemma state_before_split:
  assumes "current_index (queue s0) \<le> j" "j \<le> k"
  shows "state_before cfg e s0 k = state_before cfg e s0 j
       \<or> state_before cfg e s0 k = snd (scrape_loop cfg e [j..k - 1] (state_before cfg e s0 j))"
proof -
  show ?thesis
  proof (cases "j = k")
    case True
    then show ?thesis by simp
  next
    case False
    with assms have "[current_index (queue s0)..k - 1] = [current_index (queue s0)..j - 1] @ [j..k - 1]"
      by (intro upto_split1) simp_all
    then show ?thesis
      by (auto simp: state_before_def scrape_loop_append split: prod.splits option.splits)
  qed
qed

lemma state_before_bound:
  "current_index (queue (state_before cfg e s0 j)) \<le> max (current_index (queue s0)) j"
  using scrape_loop_upto_current_index [of s0 "current_index (queue s0)" cfg e "j - 1"]
  by (simp add: state_before_def)

text \<open>
  Claim C2. Along a scraping run, whatever the outcomes of the entities and whatever the
  cursor the run starts from, \<open>current_index\<close> never decreases: the state the loop is
  in before index \<open>j\<close> has a cursor no greater than the state before any later index
  \<open>k\<close>.
\<close>

theorem current_index_never_decreases:
  assumes "j \<le> k"
  shows "current_index (queue (state_before cfg e s0 j))
           \<le> current_index (queue (state_before cfg e s0 k))"
proof (cases "current_index (queue s0) \<le> j")
  case False
  then have "state_before cfg e s0 j = s0" by (simp add: state_before_def)
  then show ?thesis
    using scrape_loop_upto_current_index [of s0 "current_index (queue s0)" cfg e "k - 1"]
    by (simp add: state_before_def)
next
  case True
  from state_before_bound [of cfg e s0 j] True
  have b: "current_index (queue (state_before cfg e s0 j)) \<le> j" by simp
  from state_before_split [OF True assms, of cfg e]
  show ?thesis
  proof
    assume "state_before cfg e s0 k = state_before cfg e s0 j"
    then show ?thesis by simp
  next
    assume "state_before cfg e s0 k = snd (scrape_loop cfg e [j..k - 1] (state_before cfg e s0 j))"
    then show ?thesis
      using scrape_loop_upto_current_index [OF b, of cfg e "k - 1"] by simp
  qed
qed

theorem current_index_never_decreases_witness:
  "(1::int) \<le> 3
   \<and> current_index (queue (state_before initial_config scenario_env scenario_start 1))
       \<le> current_index (queue (state_before initial_config scenario_env scenario_start 3))
   \<and> current_index (queue (state_before initial_config scenario_env scenario_start 1)) = 1
   \<and> current_index (queue (state_before initial_config scenario_env scenario_start 3)) = 2"
proof -
  have a: "current_index (queue (state_before initial_config scenario_env scenario_start 1)) = 1"
    by (simp add: state_before_def scenario_start_def scenario_queue_def scenario_env_def
        empty_progress_def initial_state_def initial_config_def upto_rec1 scrape_step_def
        channel_at_def is_channel_completed_def attempts_of_def handler_defs)
  have c: "current_index (queue (state_before initial_config scenario_env scenario_start 3)) = 2"
    by (simp add: state_before_def scenario_start_def scenario_queue_def scenario_env_def
        empty_progress_def initial_state_def initial_config_def upto_rec1 scrape_step_def
        channel_at_def is_channel_completed_def attempts_of_def handler_defs safe_id_def
        record_channel_failure_def zero_stats_def)
  have b: "current_index (queue (state_before initial_config scenario_env scenario_start 1))
        \<le> current_index (queue (state_before initial_config scenario_env scenario_start 3))"
    using current_index_never_decreases [of 1 3 initial_config scenario_env scenario_start] by simp
  from a b c show ?thesis by simp
qed

section \<open>Unfolding the definitions on concrete runs\<close>

lemmas scenario_defs = scenario_start_def scenario_queue_def scenario_env_def
  empty_progress_def initial_state_def initial_config_def zero_stats_def always_def five_queue_def

lemmas eval_defs = run_scraping_def state_before_def upto_rec1 scrape_step_def channel_at_def
  is_channel_completed_def attempts_of_def safe_id_def record_channel_failure_def
  check_consecutive_failures_def new_events_def calculate_cooldown_def handler_defs

section \<open>Outcome handling: the cursor\<close>

lemma record_failure_attempts:
  "attempts_of (fst (record_channel_failure q p c m t)) c = attempts_of q c + 1"
  by (simp add: record_channel_failure_def attempts_of_def Let_def update_conv' split: option.splits)

lemma attempts_of_current_index:
  "attempts_of (q\<lparr>current_index := n\<rparr>) c = attempts_of q c"
  by (simp add: attempts_of_def)

lemma record_failure_last_error:
  "map_option last_error (map_of (failed (fst (record_channel_failure q p c m t))) c) = Some m"
  by (simp add: record_channel_failure_def Let_def update_conv' split: option.splits)

lemma scrape_step_attempted:
  assumes "\<not> shutdown_requested e i" "channel_at (channels (queue s)) i = Some entry"
    "channel_id_of entry = Some cid" "\<not> is_channel_completed cid (prog s) (output_dir s)"
    "int (attempts_of (queue s) cid) < max_channel_retries cfg"
  shows "scrape_step cfg e i s =
     Inr (attempt_entity cfg e i cid (attempts_of (queue s) cid) (restart_if_due cfg s))"
  using assms by (simp add: scrape_step_def)

text \<open>
  Claim C3, amended. When the entity at position \<open>i\<close> is attempted (no shutdown request, not
  already completed, retry budget not used up), a RateLimited outcome records a failure
  for it (one more attempt, the message as last error) and leaves \<open>current_index\<close> as
  it was, which by itself does not make the entity be attempted again on a later
  invocation; whereas a TransientError outcome records the failure and sets
  \<open>current_index\<close> to \<open>i + 1\<close>, so that for the rest of the run the position lies below the
  cursor and no later invocation, which starts at the cursor, attempts it again.
\<close>

theorem rate_limited_keeps_cursor_error_advances:
  assumes "\<not> shutdown_requested e i" "channel_at (channels (queue s)) i = Some entry"
    "channel_id_of entry = Some cid" "\<not> is_channel_completed cid (prog s) (output_dir s)"
    "int (attempts_of (queue s) cid) < max_channel_retries cfg"
  shows "(scrape e i = RateLimited m \<longrightarrow>
           (\<exists>s'. scrape_step cfg e i s = Inr s'
               \<and> current_index (queue s') = current_index (queue s)
               \<and> attempts_of (queue s') cid = attempts_of (queue s) cid + 1
               \<and> map_option last_error (map_of (failed (queue s')) cid) = Some m))
       \<and> (scrape e i = TransientError m \<longrightarrow>
           (\<exists>s'. scrape_step cfg e i s = Inr s'
               \<and> current_index (queue s') = i + 1
               \<and> attempts_of (queue s') cid = attempts_of (queue s) cid + 1
               \<and> map_option last_error (map_of (failed (queue s')) cid) = Some m
               \<and> (\<forall>k n. i \<notin> set [current_index (queue (state_before cfg e s' k)) .. n])))"
proof (intro conjI impI)
  assume out: "scrape e i = RateLimited m"
  let ?s' = "attempt_entity cfg e i cid (attempts_of (queue s) cid) (restart_if_due cfg s)"
  have q: "queue ?s' = fst (record_channel_failure (queue s) (prog s) cid m (clock e i))"
    by (simp add: out handler_defs split: prod.splits)
  have "scrape_step cfg e i s = Inr ?s'" using assms by (rule scrape_step_attempted)
  moreover have "current_index (queue ?s') = current_index (queue s)"
    by (simp add: q record_channel_failure_fields)
  moreover have "attempts_of (queue ?s') cid = attempts_of (queue s) cid + 1"
    by (simp add: q record_failure_attempts)
  moreover have "map_option last_error (map_of (failed (queue ?s')) cid) = Some m"
    by (simp only: q record_failure_last_error)
  ultimately show "\<exists>s'. scrape_step cfg e i s = Inr s'
               \<and> current_index (queue s') = current_index (queue s)
               \<and> attempts_of (queue s') cid = attempts_of (queue s) cid + 1
               \<and> map_option last_error (map_of (failed (queue s')) cid) = Some m"
    by blast
next
  assume out: "scrape e i = TransientError m"
  let ?s' = "attempt_entity cfg e i cid (attempts_of (queue s) cid) (restart_if_due cfg s)"
  have q: "queue ?s' = (fst (record_channel_failure (queue s) (prog s) cid m (clock e i)))\<lparr>current_index := i + 1\<rparr>"
    by (simp add: out handler_defs split: prod.splits)
  have "scrape_step cfg e i s = Inr ?s'" using assms by (rule scrape_step_attempted)
  moreover have "current_index (queue ?s') = i + 1"
    by (simp add: q)
  moreover have "attempts_of (queue ?s') cid = attempts_of (queue s) cid + 1"
    by (simp add: q attempts_of_current_index record_failure_attempts)
  moreover have "map_option last_error (map_of (failed (queue ?s')) cid) = Some m"
    using record_failure_last_error [of "queue s" "prog s" cid m "clock e i"]
    by (simp add: q)
  moreover have "\<forall>k n. i \<notin> set [current_index (queue (state_before cfg e ?s' k)) .. n]"
  proof (intro allI)
    fix k n
    have "current_index (queue ?s') \<le> current_index (queue (state_before cfg e ?s' k))"
      using scrape_loop_upto_current_index [of ?s' "current_index (queue ?s')" cfg e "k - 1"]
      by (simp add: state_before_def)
    then have "i < current_index (queue (state_before cfg e ?s' k))" by (simp add: q)
    then show "i \<notin> set [current_index (queue (state_before cfg e ?s' k)) .. n]" by simp
  qed
  ultimately show "\<exists>s'. scrape_step cfg e i s = Inr s'
               \<and> current_index (queue s') = i + 1
               \<and> attempts_of (queue s') cid = attempts_of (queue s) cid + 1
               \<and> map_option last_error (map_of (failed (queue s')) cid) = Some m
               \<and> (\<forall>k n. i \<notin> set [current_index (queue (state_before cfg e s' k)) .. n])"
    by blast
qed

text \<open>
  The stated consequence for RateLimited fails: when "a" is rate limited and "b" then
  succeeds, the cursor ends at 2 with "a" failed once and not completed, and the next
  invocation scrapes nothing.
\<close>

theorem rate_limited_keeps_cursor_error_advances_counterexample:
  "current_index (queue_file limited_first_run) = 2
   \<and> attempts_of (queue_file limited_first_run) ''a'' = 1
   \<and> completed (queue_file limited_first_run) = [''b'']
   \<and> filter is_scrape (trace (snd (rerun initial_config (always (Success ''a'')) (0, 0, 0)
                                    limited_first_run))) = []"
  by code_simp

theorem rate_limited_keeps_cursor_error_advances_witness:
  "(\<exists>s'. scrape_step initial_config scenario_env 2 scenario_start = Inr s'
        \<and> current_index (queue s') = 0 \<and> attempts_of (queue s') ''c'' = 1)
   \<and> (\<exists>s'. scrape_step initial_config (always (TransientError ''timeout'')) 2 scenario_start = Inr s'
        \<and> current_index (queue s') = 3 \<and> attempts_of (queue s') ''c'' = 1)"
proof -
  have h: "\<not> shutdown_requested scenario_env 2"
    "channel_at (channels (queue scenario_start)) 2 = Some (EntryStr ''c'')"
    "channel_id_of (EntryStr ''c'') = Some ''c''"
    "\<not> is_channel_completed ''c'' (prog scenario_start) (output_dir scenario_start)"
    "int (attempts_of (queue scenario_start) ''c'') < max_channel_retries initial_config"
    "\<not> shutdown_requested (always (TransientError ''timeout'')) 2"
    by (simp_all add: scenario_defs eval_defs)
  have v: "current_index (queue scenario_start) = 0" "attempts_of (queue scenario_start) ''c'' = 0"
    "scrape scenario_env 2 = RateLimited ''rate limited''"
    "scrape (always (TransientError ''timeout'')) 2 = TransientError ''timeout''"
    by (simp_all add: scenario_defs eval_defs)
  from rate_limited_keeps_cursor_error_advances [OF h(1-5), of "''rate limited''"]
    rate_limited_keeps_cursor_error_advances [OF h(6) h(2-5), of "''timeout''"]
  show ?thesis unfolding v by auto
qed

section \<open>Outcome handling: the checkpoints\<close>

text \<open>
  After a Success, NotFound or TransientError outcome the iteration writes both files, with
  the documents as it leaves them; after a Skipped outcome it writes the queue file and
  leaves the progress document as it was.
\<close>

lemma checkpoint_after_other_outcomes:
  assumes "\<not> shutdown_requested e i" "channel_at (channels (queue s)) i = Some entry"
    "channel_id_of entry = Some cid" "\<not> is_channel_completed cid (prog s) (output_dir s)"
    "int (attempts_of (queue s) cid) < max_channel_retries cfg"
  shows "(scrape e i \<noteq> Skipped \<and> (\<forall>m. scrape e i \<noteq> RateLimited m) \<longrightarrow>
           (\<exists>s'. scrape_step cfg e i s = Inr s'
               \<and> SaveQueueFile (queue s') \<in> set (new_events s s')
               \<and> SaveProgress (prog s') \<in> set (new_events s s')
               \<and> queue_file s' = queue s' \<and> progress_file s' = prog s'))
       \<and> (scrape e i = Skipped \<longrightarrow>
           (\<exists>s'. scrape_step cfg e i s = Inr s'
               \<and> SaveQueueFile (queue s') \<in> set (new_events s s')
               \<and> queue_file s' = queue s' \<and> prog s' = prog s))"
proof -
  let ?s' = "attempt_entity cfg e i cid (attempts_of (queue s) cid) (restart_if_due cfg s)"
  have step: "scrape_step cfg e i s = Inr ?s'" using assms by (rule scrape_step_attempted)
  have both: "SaveQueueFile (queue ?s') \<in> set (new_events s ?s')
               \<and> SaveProgress (prog ?s') \<in> set (new_events s ?s')
               \<and> queue_file ?s' = queue ?s' \<and> progress_file ?s' = prog ?s'"
    if "scrape e i \<noteq> Skipped" "\<forall>m. scrape e i \<noteq> RateLimited m"
  proof (cases "scrape e i")
    case (Success d)
    then show ?thesis by (simp add: new_events_def handler_defs)
  next
    case (NotFound m)
    then show ?thesis by (simp add: new_events_def handler_defs split: prod.splits)
  next
    case (TransientError m)
    then show ?thesis by (simp add: new_events_def handler_defs split: prod.splits)
  qed (use that in simp_all)
  have skip: "SaveQueueFile (queue ?s') \<in> set (new_events s ?s')
               \<and> queue_file ?s' = queue ?s' \<and> prog ?s' = prog s"
    if "scrape e i = Skipped"
    using that by (simp add: new_events_def handler_defs)
  from step both skip show ?thesis by blast
qed


section \<open>The end-to-end scenario\<close>

lemmas step_defs = scrape_step_def channel_at_def is_channel_completed_def
  attempts_of_def handler_defs record_channel_failure_def

text \<open>
  Claim C7, amended. For the queue \<^verbatim>\<open>["a", "b", "c"]\<close> with the cursor at 0 and empty
  progress, where scraping succeeds for "a", finds "b" missing and is rate limited for
  "c": after one pass the completed list is \<^verbatim>\<open>["a"]\<close>, the failed map holds both "b" and
  "c", each with one attempt, the cursor is 2, the browser was restarted exactly once
  (opened, closed and reopened for the rate limit, closed at the end), and the counts
  are one success, one failure and no skip.
\<close>

theorem three_entity_scenario:
  assumes "scrape e 0 = Success d" "safe_id d \<noteq> ''b''" "safe_id d \<noteq> ''c''"
    "scrape e 1 = NotFound m1" "scrape e 2 = RateLimited m2"
    "\<not> shutdown_requested e 0" "\<not> shutdown_requested e 1" "\<not> shutdown_requested e 2"
    "0 < max_channel_retries cfg" "2 \<le> browser_restart_interval cfg"
  shows "fst (run_scraping cfg e scenario_queue empty_progress [] counters) = None
    \<and> completed (queue (snd (run_scraping cfg e scenario_queue empty_progress [] counters))) = [''a'']
    \<and> failed (queue (snd (run_scraping cfg e scenario_queue empty_progress [] counters)))
        = [(''b'', \<lparr>attempts = 1, last_error = m1, first_failed_at = clock e 1\<rparr>),
           (''c'', \<lparr>attempts = 1, last_error = m2, first_failed_at = clock e 2\<rparr>)]
    \<and> current_index (queue (snd (run_scraping cfg e scenario_queue empty_progress [] counters))) = 2
    \<and> browser_events (trace (snd (run_scraping cfg e scenario_queue empty_progress [] counters)))
        = [StartBrowser, Cleanup, StartBrowser, Cleanup]
    \<and> session_stats (snd (run_scraping cfg e scenario_queue empty_progress [] counters))
        = \<lparr>stat_success = 1, stat_failed = 1, stat_skipped = 0\<rparr>
    \<and> queue_file (snd (run_scraping cfg e scenario_queue empty_progress [] counters))
        = queue (snd (run_scraping cfg e scenario_queue empty_progress [] counters))"
proof -
  define fb where "fb = (''b'', \<lparr>attempts = 1, last_error = m1, first_failed_at = clock e 1\<rparr>)"
  define fc where "fc = (''c'', \<lparr>attempts = 1, last_error = m2, first_failed_at = clock e 2\<rparr>)"
  define s0 where "s0 = initial_state scenario_queue empty_progress [] counters"
  define s1 where "s1 = s0\<lparr>queue := scenario_queue\<lparr>completed := [''a''], current_index := 1\<rparr>,
      prog := \<lparr>completed_channels = [''a''], failed_channels = [],
                last_updated = Some (clock e 0)\<rparr>,
      output_dir := [safe_id d],
      session_stats := \<lparr>stat_success = 1, stat_failed = 0, stat_skipped = 0\<rparr>,
      channels_since_restart := 1,
      total_channels_scraped := fst (snd counters) + 1,
      queue_file := scenario_queue\<lparr>completed := [''a''], current_index := 1\<rparr>,
      progress_file := \<lparr>completed_channels = [''a''], failed_channels = [],
                         last_updated = Some (clock e 0)\<rparr>,
      trace := [StartBrowser, ScrapeChannel ''a'',
         SaveProgress \<lparr>completed_channels = [''a''], failed_channels = [],
                        last_updated = Some (clock e 0)\<rparr>,
         SaveQueueFile (scenario_queue\<lparr>completed := [''a''], current_index := 1\<rparr>),
         RandomDelay]\<rparr>"
  define s2 where "s2 = s1\<lparr>queue := scenario_queue\<lparr>completed := [''a''], failed := [fb], current_index := 2\<rparr>,
      prog := \<lparr>completed_channels = [''a''], failed_channels = [fb],
                last_updated = Some (clock e 1)\<rparr>,
      session_stats := \<lparr>stat_success = 1, stat_failed = 1, stat_skipped = 0\<rparr>,
      queue_file := scenario_queue\<lparr>completed := [''a''], failed := [fb], current_index := 2\<rparr>,
      progress_file := \<lparr>completed_channels = [''a''], failed_channels = [fb],
                         last_updated = Some (clock e 1)\<rparr>,
      trace := trace s1 @ [ScrapeChannel ''b'',
         SaveQueueFile (scenario_queue\<lparr>completed := [''a''], failed := [fb], current_index := 2\<rparr>),
         SaveProgress \<lparr>completed_channels = [''a''], failed_channels = [fb],
                        last_updated = Some (clock e 1)\<rparr>]\<rparr>"
  define s3 where "s3 = s2\<lparr>queue := scenario_queue\<lparr>completed := [''a''], failed := [fb, fc], current_index := 2\<rparr>,
      prog := \<lparr>completed_channels = [''a''], failed_channels = [fb, fc],
                last_updated = Some (clock e 1)\<rparr>,
      channels_since_restart := 0,
      trace := trace s2 @ [ScrapeChannel ''c'', Cleanup, Sleep (calculate_cooldown cfg 1), StartBrowser]\<rparr>"
  have st0: "scrape_step cfg e 0 s0 = Inr s1"
    using assms(1,6,9,10)
    by (simp add: s0_def s1_def scenario_queue_def empty_progress_def initial_state_def
        zero_stats_def step_defs)
  have st1: "scrape_step cfg e 1 s1 = Inr s2"
    using assms(2,4,7,9,10)
    by (simp add: s0_def s1_def s2_def fb_def scenario_queue_def empty_progress_def
        initial_state_def zero_stats_def step_defs safe_id_def)
  have st2: "scrape_step cfg e 2 s2 = Inr s3"
    using assms(3,5,8,9,10)
    by (simp add: s0_def s1_def s2_def s3_def fb_def fc_def scenario_queue_def empty_progress_def
        initial_state_def zero_stats_def step_defs safe_id_def)
  have range: "[current_index scenario_queue .. int (length (channels scenario_queue)) - 1] = [0, 1, 2]"
    by (simp add: scenario_queue_def upto_rec1)
  have loop: "scrape_loop cfg e [0, 1, 2] s0 = (None, s3)"
    by (simp add: st0 st1 st2)
  have run: "run_scraping cfg e scenario_queue empty_progress [] counters
      = (None, save_progress (finished_at e) (save_queue_file (emit [Cleanup] s3)))"
    unfolding run_scraping_def range s0_def [symmetric] loop
    by (simp add: scenario_queue_def)
  show ?thesis
    unfolding run
    by (simp add: s3_def s2_def s1_def s0_def fb_def fc_def initial_state_def save_progress_def
        save_queue_file_def emit_def browser_events_def scenario_queue_def)
qed

text \<open>
  The claim as stated has "b" as the only key of the failed map; the rate-limited "c" is
  recorded there too.
\<close>

theorem three_entity_scenario_counterexample:
  "map fst (failed (queue (snd
      (run_scraping initial_config scenario_env scenario_queue empty_progress [] (0, 0, 0)))))
     = [''b'', ''c'']"
  by code_simp

theorem three_entity_scenario_witness:
  "completed (queue (snd (run_scraping initial_config scenario_env scenario_queue empty_progress [] (0, 0, 0)))) = [''a'']
   \<and> current_index (queue (snd (run_scraping initial_config scenario_env scenario_queue empty_progress [] (0, 0, 0)))) = 2
   \<and> map fst (failed (queue (snd (run_scraping initial_config scenario_env scenario_queue empty_progress [] (0, 0, 0))))) = [''b'', ''c'']
   \<and> session_stats (snd (run_scraping initial_config scenario_env scenario_queue empty_progress [] (0, 0, 0)))
        = \<lparr>stat_success = 1, stat_failed = 1, stat_skipped = 0\<rparr>"
proof -
  have h: "scrape scenario_env 0 = Success ''a''" "safe_id ''a'' \<noteq> ''b''" "safe_id ''a'' \<noteq> ''c''"
    "scrape scenario_env 1 = NotFound ''Channel not found: b''"
    "scrape scenario_env 2 = RateLimited ''rate limited''"
    "\<not> shutdown_requested scenario_env 0" "\<not> shutdown_requested scenario_env 1"
    "\<not> shutdown_requested scenario_env 2"
    "0 < max_channel_retries initial_config" "2 \<le> browser_restart_interval initial_config"
    by (simp_all add: scenario_env_def initial_config_def safe_id_def)
  from three_entity_scenario [OF h, where counters = "(0, 0, 0)"] show ?thesis by simp
qed

section \<open>The consecutive-failure check\<close>

text \<open>
  Claim C5. The check should return 5 when the five entities just below the cursor are all
  in the failed map. After five ordinary failures from the start of a fresh queue the
  entities at positions 0 to 4 are all failed and the cursor is 5, yet the check returns
  4: the scan stops above index 0. No restart is forced.
\<close>

theorem five_failures_counted_as_four:
  "map fst (failed (queue run_of_five_errors)) = [''a'', ''b'', ''c'', ''d'', ''e'']
   \<and> channels (queue run_of_five_errors) = map EntryStr [''a'', ''b'', ''c'', ''d'', ''e'']
   \<and> current_index (queue run_of_five_errors) = 5
   \<and> check_consecutive_failures (queue run_of_five_errors) = 4
   \<and> browser_restarts run_of_five_errors = 0
   \<and> browser_events (trace run_of_five_errors) = [StartBrowser, Cleanup]"
  by code_simp

text \<open>With one more entity in front, the same five failures lie at positions 1 to 5 and are counted.\<close>

lemma five_failures_above_index_zero:
  "check_consecutive_failures
     ((queue run_of_five_errors)\<lparr>channels := EntryStr ''z'' # channels (queue run_of_five_errors),
                                  current_index := 6\<rparr>) = 5"
  by code_simp

section \<open>A queue file that cannot be loaded\<close>

text \<open>
  Claim C10. For a queue-file path whose file is missing, cannot be read, or does not hold
  valid JSON, \<^verbatim>\<open>load_queue_file\<close> does not raise: it returns the default document, with
  no channels, nothing completed, nothing failed and the cursor at 0.
\<close>

theorem load_queue_file_defaults:
  assumes "fs path = Missing \<or> fs path = Unreadable
           \<or> (\<exists>bytes ex. fs path = Content bytes \<and> json_load bytes = Inl ex)"
  shows "load_queue_file json_load fs path = Inr default_queue
       \<and> channels default_queue = [] \<and> completed default_queue = []
       \<and> failed default_queue = [] \<and> current_index default_queue = 0"
  using assms
  by (auto simp: load_queue_file_def open_read_def default_queue_def)

theorem load_queue_file_defaults_witness:
  "load_queue_file (\<lambda>bytes. Inl JSONDecodeError) (\<lambda>p. Missing) ''queue.json'' = Inr default_queue
   \<and> load_queue_file (\<lambda>bytes. Inl JSONDecodeError) (\<lambda>p. Unreadable) ''queue.json'' = Inr default_queue
   \<and> load_queue_file (\<lambda>bytes. Inl JSONDecodeError) (\<lambda>p. Content ''{channels: ['')
         ''queue.json'' = Inr default_queue"
  using load_queue_file_defaults [of "\<lambda>p. Missing" "''queue.json''" "\<lambda>bytes. Inl JSONDecodeError"]
    load_queue_file_defaults [of "\<lambda>p. Unreadable" "''queue.json''" "\<lambda>bytes. Inl JSONDecodeError"]
    load_queue_file_defaults [of "\<lambda>p. Content ''{channels: [''" "''queue.json''"
       "\<lambda>bytes. Inl JSONDecodeError"]
  by simp

section \<open>The discovery cursor and the failure count\<close>

lemma map_of_count_failure:
  "map_of (count_failure q fq) q = Some ((case map_of fq q of Some n \<Rightarrow> n | None \<Rightarrow> 0) + 1)"
  by (simp add: count_failure_def update_conv')

lemma search_never_raises: "search_youtube_directly r \<noteq> Raised m"
  by (cases r) (simp_all add: search_youtube_directly_def)

text \<open>
  The handler of \<^verbatim>\<open>discover_channels\<close> for an exception of the search: it counts the failure
  of the query, leaves the cursor of the document where it was and writes the file.
\<close>

lemma discover_step_raised:
  assumes "query_at queries i = Some query"
    "query \<notin> set (completed_queries (progress_doc s))" "search i = Raised m"
  shows "discover_step True search queries i s =
      (None, save_discovery (s\<lparr>searched := searched s @ [query],
         progress_doc := (progress_doc s)
           \<lparr>failed_queries := count_failure query (failed_queries (progress_doc s))\<rparr>\<rparr>))"
  using assms by (simp add: discover_step_def)

text \<open>
  With the search the stage really calls, that handler is never entered: whatever the
  browser does short of an interrupt, an attempted query is marked completed, the cursor
  written to the file is \<open>i + 1\<close>, and the failure counts stay as they were.
\<close>

lemma discover_step_attempt:
  assumes "query_at queries i = Some query"
    "query \<notin> set (completed_queries (progress_doc s))" "page i \<noteq> PageInterrupted"
  shows "fst (discover_step True (\<lambda>i. search_youtube_directly (page i)) queries i s) = None"
    and "saved_progress (snd (discover_step True (\<lambda>i. search_youtube_directly (page i)) queries i s))
           = Some (progress_doc (snd (discover_step True (\<lambda>i. search_youtube_directly (page i)) queries i s)))"
    and "current_query_index (progress_doc
           (snd (discover_step True (\<lambda>i. search_youtube_directly (page i)) queries i s))) = i + 1"
    and "query \<in> set (completed_queries (progress_doc
           (snd (discover_step True (\<lambda>i. search_youtube_directly (page i)) queries i s))))"
    and "failed_queries (progress_doc
           (snd (discover_step True (\<lambda>i. search_youtube_directly (page i)) queries i s)))
           = failed_queries (progress_doc s)"
    and "searched (snd (discover_step True (\<lambda>i. search_youtube_directly (page i)) queries i s))
           = searched s @ [query]"
  using assms
  by (cases "page i"; simp add: discover_step_def search_youtube_directly_def save_discovery_def)+

text \<open>
  Claim C6. For every query attempted the cursor written to the progress file is advanced
  past the query whether the search succeeded or failed, and a failed query is to
  increment \<open>failed_queries[query]\<close>. With the single query "q" and a browser whose search
  page times out, the cursor written is 1 and the query is searched once, as claimed, but
  the failure is not counted: \<open>failed_queries\<close> stays empty and "q" is recorded as completed.
\<close>

theorem failed_search_is_not_counted:
  "fst (discover timeout_page [''q''] fresh_progress) = None
   \<and> map_option current_query_index
        (saved_progress (snd (discover timeout_page [''q''] fresh_progress))) = Some 1
   \<and> map_option failed_queries
        (saved_progress (snd (discover timeout_page [''q''] fresh_progress))) = Some []
   \<and> map_option completed_queries
        (saved_progress (snd (discover timeout_page [''q''] fresh_progress))) = Some [''q'']
   \<and> searched (snd (discover timeout_page [''q''] fresh_progress)) = [''q'']"
  by code_simp

section \<open>What lies below the cursor\<close>

lemma keys_delete: "fst ` set (AList.delete k al) = fst ` set al - {k}"
  by (induction al) auto

lemma accounted_cong:
  "queue s' = queue s \<Longrightarrow> accounted cfg e s0 s' p = accounted cfg e s0 s p"
  by (simp add: accounted_def cong: option.case_cong)

lemma accounted_step:
  assumes "scrape_step cfg e i s = Inr s'" "accounted cfg e s0 s p"
  shows "accounted cfg e s0 s' p"
proof -
  from assms(2) obtain entry cid where
    ent: "channel_at (channels (queue s)) p = Some entry" and cid: "channel_id_of entry = Some cid"
    and acc: "cid \<in> set (completed (queue s)) \<or> cid \<in> fst ` set (failed (queue s))
              \<or> is_channel_completed cid (prog (state_before cfg e s0 p))
                                        (output_dir (state_before cfg e s0 p))
              \<or> scrape e p = Skipped"
    by (auto simp: accounted_def split: option.splits)
  have ch: "channels (queue s') = channels (queue s)"
    using assms(1) by (rule scrape_step_channels)
  have "cid \<in> set (completed (queue s')) \<or> cid \<in> fst ` set (failed (queue s'))
              \<or> is_channel_completed cid (prog (state_before cfg e s0 p))
                                        (output_dir (state_before cfg e s0 p))
              \<or> scrape e p = Skipped"
    using assms(1) acc
    by (cases rule: scrape_step_cases)
       (auto simp: record_channel_failure_fields keys_delete)
  then show ?thesis by (simp add: accounted_def ch ent cid)
qed

lemma attempts_of_positive_key:
  "0 < attempts_of q c \<Longrightarrow> c \<in> fst ` set (failed q)"
  by (auto simp: attempts_of_def split: option.splits dest: map_of_SomeD intro: rev_image_eqI)

lemma accounted_at_step:
  assumes "scrape_step cfg e i s = Inr s'" "0 < max_channel_retries cfg"
    "state_before cfg e s0 i = s"
  shows "accounted cfg e s0 s' i"
  using assms(1)
proof (cases rule: scrape_step_cases)
  case (completed entry cid)
  then show ?thesis by (simp add: accounted_def assms(3))
next
  case (retries entry cid)
  with assms(2) have "0 < attempts_of (queue s) cid" by simp
  then have "cid \<in> fst ` set (failed (queue s))" by (rule attempts_of_positive_key)
  with retries show ?thesis by (simp add: accounted_def)
next
  case (success entry cid d)
  then show ?thesis by (simp add: accounted_def)
next
  case (skipped entry cid)
  then show ?thesis by (simp add: accounted_def)
next
  case (not_found entry cid m)
  then show ?thesis by (simp add: accounted_def record_channel_failure_fields)
next
  case (rate_limited entry cid m)
  then show ?thesis by (simp add: accounted_def record_channel_failure_fields)
next
  case (error entry cid m)
  then show ?thesis by (simp add: accounted_def record_channel_failure_fields)
qed

text \<open>Without a retry budget nothing is ever attempted, and the queue stays as it is.\<close>

lemma no_budget_queue_unchanged:
  assumes "max_channel_retries cfg \<le> 0"
  shows "scrape_loop cfg e xs s = (h, s') \<Longrightarrow> queue s' = queue s"
proof (induction xs arbitrary: s)
  case Nil
  then show ?case by simp
next
  case (Cons i xs)
  show ?case
  proof (cases "scrape_step cfg e i s")
    case (Inl x)
    with Cons.prems show ?thesis by simp
  next
    case (Inr s1)
    have "queue s1 = queue s"
      using Inr assms by (cases rule: scrape_step_cases) simp_all
    moreover have "queue s' = queue s1"
      using Cons.prems Inr by (intro Cons.IH) simp
    ultimately show ?thesis by simp
  qed
qed

lemma scrape_loop_accounted:
  assumes budget: "0 < max_channel_retries cfg"
  shows "scrape_loop cfg e [current_index (queue s0) .. a - 1] s0 = (None, s) \<Longrightarrow>
     current_index (queue s0) \<le> a \<Longrightarrow>
     (\<forall>r. 0 \<le> r \<and> r < a \<longrightarrow> accounted cfg e s0 s r) \<Longrightarrow>
     0 \<le> p \<Longrightarrow> p < current_index (queue (snd (scrape_loop cfg e [a..b] s))) \<Longrightarrow>
     accounted cfg e s0 (snd (scrape_loop cfg e [a..b] s)) p"
proof (induction a b arbitrary: s rule: upto.induct)
  case (1 a b)
  have here: "state_before cfg e s0 a = s"
    using "1.prems"(1) by (simp add: state_before_def)
  have bound: "current_index (queue s) \<le> a"
    using state_before_bound [of cfg e s0 a] "1.prems"(2) by (simp add: here)
  have stay: "accounted cfg e s0 s p" if "p < current_index (queue s)"
    using that bound "1.prems"(3,4) by simp
  show ?case
  proof (cases "a \<le> b")
    case False
    with "1.prems"(5) stay show ?thesis by simp
  next
    case True
    then have list: "[a..b] = a # [a + 1..b]" by (simp add: upto_rec1)
    show ?thesis
    proof (cases "scrape_step cfg e a s")
      case (Inl x)
      with "1.prems"(5) stay show ?thesis by (simp add: list)
    next
      case (Inr s')
      have "[current_index (queue s0) .. a] = [current_index (queue s0) .. a - 1] @ [a]"
        using "1.prems"(2) by (simp add: upto_rec2)
      then have run: "scrape_loop cfg e [current_index (queue s0) .. a + 1 - 1] s0 = (None, s')"
        using "1.prems"(1) Inr by (simp add: scrape_loop_append)
      have le: "current_index (queue s0) \<le> a + 1" using "1.prems"(2) by simp
      have inv: "\<forall>r. 0 \<le> r \<and> r < a + 1 \<longrightarrow> accounted cfg e s0 s' r"
      proof (intro allI impI)
        fix r assume r: "0 \<le> r \<and> r < a + 1"
        show "accounted cfg e s0 s' r"
        proof (cases "r = a")
          case True
          with accounted_at_step [OF Inr budget here] show ?thesis by simp
        next
          case False
          with r "1.prems"(3) have "accounted cfg e s0 s r" by simp
          with Inr show ?thesis by (rule accounted_step)
        qed
      qed
      from "1.prems"(5) have "p < current_index (queue (snd (scrape_loop cfg e [a + 1..b] s')))"
        by (simp add: list Inr)
      from "1.IH" [OF True run le inv "1.prems"(4) this]
      show ?thesis by (simp add: list Inr)
    qed
  qed
qed

text \<open>
  Claim C8, amended. From a starting state in which the positions below the cursor are
  accounted for, in every state a scraping run passes through each identifier at a
  position below \<open>current_index\<close> is in the completed list of the queue, or a key of its
  failed map, or was passed over because \<^verbatim>\<open>is_channel_completed\<close> held for it when the loop
  reached it, or was reported as skipped by the scraper.
\<close>

theorem positions_below_cursor_accounted:
  assumes "\<forall>p. 0 \<le> p \<and> p < current_index (queue s0) \<longrightarrow> accounted cfg e s0 s0 p"
  shows "\<forall>p. 0 \<le> p \<and> p < current_index (queue (state_before cfg e s0 m))
             \<longrightarrow> accounted cfg e s0 (state_before cfg e s0 m) p"
proof (cases "0 < max_channel_retries cfg")
  case True
  have start: "scrape_loop cfg e [current_index (queue s0) .. current_index (queue s0) - 1] s0
                 = (None, s0)"
    by simp
  show ?thesis
  proof (intro allI impI)
    fix p assume p: "0 \<le> p \<and> p < current_index (queue (state_before cfg e s0 m))"
    have "accounted cfg e s0 (snd (scrape_loop cfg e [current_index (queue s0) .. m - 1] s0)) p"
      by (rule scrape_loop_accounted [OF True start order_refl assms])
         (use p in \<open>simp_all add: state_before_def\<close>)
    then show "accounted cfg e s0 (state_before cfg e s0 m) p"
      by (simp add: state_before_def)
  qed
next
  case False
  then have "max_channel_retries cfg \<le> 0" by simp
  then have same: "queue (state_before cfg e s0 m) = queue s0"
    unfolding state_before_def
    by (rule no_budget_queue_unchanged) (rule surjective_pairing)
  show ?thesis
    using assms by (simp add: same accounted_cong [OF same])
qed

text \<open>
  As stated the claim fails: with the artifact of "a" already in the output directory "a"
  is passed over, "b" is then found missing and moves the cursor to 2, and "a", below the
  cursor, is neither completed nor failed in the queue.
\<close>

theorem positions_below_cursor_accounted_counterexample:
  "current_index (queue (state_before initial_config (always (NotFound ''gone'')) artifact_start 2)) = 2
   \<and> \<not> resolved (state_before initial_config (always (NotFound ''gone'')) artifact_start 2) 0"
  by code_simp

theorem positions_below_cursor_accounted_witness:
  "current_index (queue (state_before initial_config scenario_env resumed_start 3)) = 2
   \<and> accounted initial_config scenario_env resumed_start
         (state_before initial_config scenario_env resumed_start 3) 0
   \<and> accounted initial_config scenario_env resumed_start
         (state_before initial_config scenario_env resumed_start 3) 1"
proof -
  have c: "current_index (queue (state_before initial_config scenario_env resumed_start 3)) = 2"
    by code_simp
  have a0: "accounted initial_config scenario_env resumed_start resumed_start 0" by code_simp
  have ci: "current_index (queue resumed_start) = 1" by code_simp
  have h: "\<forall>p. 0 \<le> p \<and> p < current_index (queue resumed_start)
               \<longrightarrow> accounted initial_config scenario_env resumed_start resumed_start p"
  proof (intro allI impI)
    fix p :: int assume "0 \<le> p \<and> p < current_index (queue resumed_start)"
    then have "p = 0" by (simp add: ci)
    with a0 show "accounted initial_config scenario_env resumed_start resumed_start p" by simp
  qed
  from positions_below_cursor_accounted [OF h, of 3] c show ?thesis by simp
qed

section \<open>Resuming after a finished run\<close>

lemma pre_skipped_cong:
  "queue s' = queue s \<Longrightarrow> completed_channels (prog s') = completed_channels (prog s) \<Longrightarrow>
   output_dir s' = output_dir s \<Longrightarrow> pre_skipped cfg s' p = pre_skipped cfg s p"
  by (simp add: pre_skipped_def is_channel_completed_def cong: option.case_cong)

lemma scrape_loop_channels:
  "scrape_loop cfg e xs s = (h, s') \<Longrightarrow> channels (queue s') = channels (queue s)"
proof (induction xs arbitrary: s)
  case Nil
  then show ?case by simp
next
  case (Cons i xs)
  then show ?case
    by (auto split: sum.splits dest: scrape_step_channels)
qed

lemma first_run_leaves_pre_skipped:
  assumes noRL: "\<forall>i m. scrape e i \<noteq> RateLimited m"
  shows "(\<forall>p. current_index (queue s) \<le> p \<and> p < a \<longrightarrow> pre_skipped cfg s p) \<Longrightarrow>
     scrape_loop cfg e [a..b] s = (None, s') \<Longrightarrow>
     current_index (queue s') \<le> p \<Longrightarrow> p \<le> b \<Longrightarrow> pre_skipped cfg s' p"
proof (induction a b arbitrary: s rule: upto.induct)
  case (1 a b)
  show ?case
  proof (cases "a \<le> b")
    case False
    with "1.prems" show ?thesis by simp
  next
    case True
    then have list: "[a..b] = a # [a + 1..b]" by (simp add: upto_rec1)
    from "1.prems"(2) obtain s1 where st: "scrape_step cfg e a s = Inr s1"
      and rest: "scrape_loop cfg e [a + 1..b] s1 = (None, s')"
      by (auto simp: list split: sum.splits)
    have inv: "\<forall>r. current_index (queue s1) \<le> r \<and> r < a + 1 \<longrightarrow> pre_skipped cfg s1 r"
      using st
    proof (cases rule: scrape_step_cases)
      case (completed entry cid)
      then have same: "\<And>r. pre_skipped cfg s1 r = pre_skipped cfg s r"
        by (intro pre_skipped_cong) simp_all
      have at: "pre_skipped cfg s a" using completed by (simp add: pre_skipped_def)
      show ?thesis
      proof (intro allI impI)
        fix r assume r: "current_index (queue s1) \<le> r \<and> r < a + 1"
        show "pre_skipped cfg s1 r"
        proof (cases "r = a")
          case True
          with at show ?thesis by (simp add: same)
        next
          case False
          with r completed have "current_index (queue s) \<le> r \<and> r < a" by simp
          with "1.prems"(1) show ?thesis by (simp add: same)
        qed
      qed
    next
      case (retries entry cid)
      then have same: "\<And>r. pre_skipped cfg s1 r = pre_skipped cfg s r"
        by (intro pre_skipped_cong) simp_all
      have at: "pre_skipped cfg s a" using retries by (simp add: pre_skipped_def)
      show ?thesis
      proof (intro allI impI)
        fix r assume r: "current_index (queue s1) \<le> r \<and> r < a + 1"
        show "pre_skipped cfg s1 r"
        proof (cases "r = a")
          case True
          with at show ?thesis by (simp add: same)
        next
          case False
          with r retries have "current_index (queue s) \<le> r \<and> r < a" by simp
          with "1.prems"(1) show ?thesis by (simp add: same)
        qed
      qed
    next
      case (rate_limited entry cid m)
      with noRL show ?thesis by simp
    qed (auto simp: record_channel_failure_fields)
    from "1.IH" [OF True inv rest "1.prems"(3,4)] show ?thesis .
  qed
qed

lemma pre_skipped_step:
  assumes "pre_skipped cfg s i"
  shows "scrape_step cfg e i s = Inl GracefulExit
       \<or> scrape_step cfg e i s = Inr (s\<lparr>session_stats :=
            (session_stats s)\<lparr>stat_skipped := stat_skipped (session_stats s) + 1\<rparr>\<rparr>)
       \<or> scrape_step cfg e i s = Inr (s\<lparr>session_stats :=
            (session_stats s)\<lparr>stat_failed := stat_failed (session_stats s) + 1\<rparr>\<rparr>)"
proof -
  from assms obtain entry cid where
    ent: "channel_at (channels (queue s)) i = Some entry" and cid: "channel_id_of entry = Some cid"
    and sk: "is_channel_completed cid (prog s) (output_dir s)
             \<or> int (attempts_of (queue s) cid) \<ge> max_channel_retries cfg"
    by (auto simp: pre_skipped_def split: option.splits)
  show ?thesis
  proof (cases "shutdown_requested e i")
    case True
    then show ?thesis by (simp add: scrape_step_def)
  next
    case False
    show ?thesis
    proof (cases "is_channel_completed cid (prog s) (output_dir s)")
      case True
      with False ent cid show ?thesis by (simp add: scrape_step_def)
    next
      case nc: False
      with sk have "int (attempts_of (queue s) cid) \<ge> max_channel_retries cfg" by simp
      with False nc ent cid show ?thesis by (simp add: scrape_step_def)
    qed
  qed
qed

lemma rerun_loop_idle:
  "(\<forall>p\<in>set xs. pre_skipped cfg s p) \<Longrightarrow> scrape_loop cfg e xs s = (h, s') \<Longrightarrow>
   queue s' = queue s \<and> prog s' = prog s \<and> output_dir s' = output_dir s
   \<and> trace s' = trace s \<and> stat_success (session_stats s') = stat_success (session_stats s)"
proof (induction xs arbitrary: s)
  case Nil
  then show ?case by simp
next
  case (Cons i xs)
  from Cons.prems(1) have here: "pre_skipped cfg s i" by simp
  have step: "\<And>t. scrape_step cfg e i s = Inr t \<Longrightarrow> queue t = queue s \<Longrightarrow> prog t = prog s \<Longrightarrow>
     output_dir t = output_dir s \<Longrightarrow> trace t = trace s \<Longrightarrow>
     stat_success (session_stats t) = stat_success (session_stats s) \<Longrightarrow> ?case"
  proof -
    fix t assume st: "scrape_step cfg e i s = Inr t" and eq: "queue t = queue s" "prog t = prog s"
      "output_dir t = output_dir s" and tr: "trace t = trace s"
      and su: "stat_success (session_stats t) = stat_success (session_stats s)"
    have "\<forall>p\<in>set xs. pre_skipped cfg t p"
      using Cons.prems(1) pre_skipped_cong [OF eq(1) _ eq(3), of cfg] eq(2) by simp
    moreover have "scrape_loop cfg e xs t = (h, s')"
      using Cons.prems(2) by (simp add: st)
    ultimately have "queue s' = queue t \<and> prog s' = prog t \<and> output_dir s' = output_dir t
      \<and> trace s' = trace t \<and> stat_success (session_stats s') = stat_success (session_stats t)"
      by (rule Cons.IH)
    then show ?case by (simp only: eq tr su)
  qed
  from pre_skipped_step [OF here, of e]
  consider (halt) "scrape_step cfg e i s = Inl GracefulExit"
    | (skip) "scrape_step cfg e i s = Inr (s\<lparr>session_stats :=
            (session_stats s)\<lparr>stat_skipped := stat_skipped (session_stats s) + 1\<rparr>\<rparr>)"
    | (fail) "scrape_step cfg e i s = Inr (s\<lparr>session_stats :=
            (session_stats s)\<lparr>stat_failed := stat_failed (session_stats s) + 1\<rparr>\<rparr>)"
    by blast
  then show ?case
  proof cases
    case halt
    with Cons.prems(2) show ?thesis by simp
  next
    case skip
    show ?thesis by (rule step [OF skip]) simp_all
  next
    case fail
    show ?thesis by (rule step [OF fail]) simp_all
  qed
qed

lemma finally_fields:
  "queue (save_progress now (save_queue_file (emit evs s))) = queue s"
  "prog (save_progress now (save_queue_file (emit evs s))) = (prog s)\<lparr>last_updated := Some now\<rparr>"
  "output_dir (save_progress now (save_queue_file (emit evs s))) = output_dir s"
  "queue_file (save_progress now (save_queue_file (emit evs s))) = queue s"
  "progress_file (save_progress now (save_queue_file (emit evs s)))
     = (prog s)\<lparr>last_updated := Some now\<rparr>"
  "session_stats (save_progress now (save_queue_file (emit evs s))) = session_stats s"
  "trace (save_progress now (save_queue_file (emit evs s)))
     = trace s @ evs @ [SaveQueueFile (queue s), SaveProgress ((prog s)\<lparr>last_updated := Some now\<rparr>)]"
  by (simp_all add: save_progress_def save_queue_file_def emit_def)

lemma rerun_empty_queue:
  assumes "channels q = []"
  shows "snd (run_scraping cfg e1 q p out c1) = (initial_state q p out c1)\<lparr>trace := []\<rparr>"
    and "rerun cfg e2 c2 ((initial_state q p out c1)\<lparr>trace := []\<rparr>)
           = (None, (initial_state q p out c2)\<lparr>trace := []\<rparr>)"
  using assms by (simp_all add: rerun_def run_scraping_def initial_state_def)

lemma run_scraping_nonempty:
  assumes "channels q \<noteq> []"
    and "scrape_loop cfg e [current_index q .. int (length (channels q)) - 1]
           (initial_state q p out c) = (h, t)"
  shows "run_scraping cfg e q p out c
           = (h, save_progress (finished_at e) (save_queue_file (emit [Cleanup] t)))"
  using assms by (simp add: run_scraping_def)

lemma initial_state_fields:
  "queue (initial_state q p out c) = q" "prog (initial_state q p out c) = p"
  "output_dir (initial_state q p out c) = out" "trace (initial_state q p out c) = [StartBrowser]"
  "stat_success (session_stats (initial_state q p out c)) = 0"
  by (simp_all add: initial_state_def zero_stats_def)

lemma first_run_tail_pre_skipped:
  assumes noRL: "\<forall>i m. scrape e i \<noteq> RateLimited m"
    and loop: "scrape_loop cfg e [current_index q .. b] (initial_state q p out c) = (None, t)"
    and r: "current_index (queue t) \<le> r" "r \<le> b"
  shows "pre_skipped cfg t r"
proof -
  have "\<forall>x. current_index (queue (initial_state q p out c)) \<le> x \<and> x < current_index q
            \<longrightarrow> pre_skipped cfg (initial_state q p out c) x"
    by (auto simp: initial_state_fields)
  from first_run_leaves_pre_skipped [OF noRL this loop r] show ?thesis .
qed

text \<open>
  Claim C9, amended. When a run of the scraping stage ends without an exception and no
  scrape in it was rate limited, running the stage again on the files it left makes no
  call of \<^verbatim>\<open>scrape_channel\<close> at all and leaves the queue file, the completed and failed
  entries of the progress file and the output directory as they were; the progress file
  is written again with a new \<^verbatim>\<open>last_updated\<close> stamp, and the second run counts no success
  of its own (its counts cover only the entities from the saved cursor on, passed over as
  completed or given up, not those of the first run).
\<close>

theorem rerun_scrapes_nothing:
  assumes fin: "fst (run_scraping cfg e1 q p out c1) = None"
    and noRL: "\<forall>i m. scrape e1 i \<noteq> RateLimited m"
  shows "filter is_scrape (trace (snd (rerun cfg e2 c2 (snd (run_scraping cfg e1 q p out c1))))) = []
       \<and> queue_file (snd (rerun cfg e2 c2 (snd (run_scraping cfg e1 q p out c1))))
           = queue_file (snd (run_scraping cfg e1 q p out c1))
       \<and> completed_channels (progress_file (snd (rerun cfg e2 c2 (snd (run_scraping cfg e1 q p out c1)))))
           = completed_channels (progress_file (snd (run_scraping cfg e1 q p out c1)))
       \<and> failed_channels (progress_file (snd (rerun cfg e2 c2 (snd (run_scraping cfg e1 q p out c1)))))
           = failed_channels (progress_file (snd (run_scraping cfg e1 q p out c1)))
       \<and> (channels q \<noteq> [] \<longrightarrow>
            last_updated (progress_file (snd (rerun cfg e2 c2 (snd (run_scraping cfg e1 q p out c1)))))
              = Some (finished_at e2))
       \<and> output_dir (snd (rerun cfg e2 c2 (snd (run_scraping cfg e1 q p out c1))))
           = output_dir (snd (run_scraping cfg e1 q p out c1))
       \<and> stat_success (session_stats (snd (rerun cfg e2 c2 (snd (run_scraping cfg e1 q p out c1))))) = 0"
proof (cases "channels q = []")
  case True
  show ?thesis
    unfolding rerun_empty_queue [OF True]
    by (simp add: initial_state_def zero_stats_def True)
next
  case False
  obtain h1 t1 where loop1:
    "scrape_loop cfg e1 [current_index q .. int (length (channels q)) - 1] (initial_state q p out c1) = (h1, t1)"
    by (cases "scrape_loop cfg e1 [current_index q .. int (length (channels q)) - 1] (initial_state q p out c1)")
  define s1 where "s1 = save_progress (finished_at e1) (save_queue_file (emit [Cleanup] t1))"
  have run1: "run_scraping cfg e1 q p out c1 = (h1, s1)"
    unfolding s1_def using False loop1 by (rule run_scraping_nonempty)
  with fin have h1: "h1 = None" by simp
  have ch: "channels (queue t1) = channels q"
    using scrape_loop_channels [OF loop1] by (simp add: initial_state_fields)
  define p1 where "p1 = (prog t1)\<lparr>last_updated := Some (finished_at e1)\<rparr>"
  have s1f: "queue_file s1 = queue t1" "progress_file s1 = p1" "output_dir s1 = output_dir t1"
    by (simp_all add: s1_def p1_def finally_fields)
  define s0 where "s0 = initial_state (queue t1) p1 (output_dir t1) c2"
  obtain h2 t2 where loop2:
    "scrape_loop cfg e2 [current_index (queue t1) .. int (length (channels (queue t1))) - 1] s0 = (h2, t2)"
    by (cases "scrape_loop cfg e2 [current_index (queue t1) .. int (length (channels (queue t1))) - 1] s0")
  define s2 where "s2 = save_progress (finished_at e2) (save_queue_file (emit [Cleanup] t2))"
  have ne: "channels (queue t1) \<noteq> []" using False ch by simp
  have run2: "rerun cfg e2 c2 s1 = (h2, s2)"
    unfolding rerun_def s1f s2_def
    using ne loop2 [unfolded s0_def] by (rule run_scraping_nonempty)
  have skip: "\<forall>r\<in>set [current_index (queue t1) .. int (length (channels (queue t1))) - 1].
               pre_skipped cfg s0 r"
  proof
    fix r assume "r \<in> set [current_index (queue t1) .. int (length (channels (queue t1))) - 1]"
    then have r: "current_index (queue t1) \<le> r" "r \<le> int (length (channels q)) - 1"
      by (simp_all add: ch)
    have "pre_skipped cfg t1 r"
      using noRL loop1 [unfolded h1] r by (rule first_run_tail_pre_skipped)
    moreover have "pre_skipped cfg s0 r = pre_skipped cfg t1 r"
      by (rule pre_skipped_cong) (simp_all add: s0_def p1_def initial_state_fields)
    ultimately show "pre_skipped cfg s0 r" by simp
  qed
  from rerun_loop_idle [OF skip loop2]
  have idle: "queue t2 = queue t1" "prog t2 = p1" "output_dir t2 = output_dir t1"
    "trace t2 = [StartBrowser]" "stat_success (session_stats t2) = 0"
    by (simp_all add: s0_def initial_state_fields)
  have s2f: "queue_file s2 = queue t1"
    "progress_file s2 = p1\<lparr>last_updated := Some (finished_at e2)\<rparr>"
    "output_dir s2 = output_dir t1" "stat_success (session_stats s2) = 0"
    "filter is_scrape (trace s2) = []"
    by (simp_all add: s2_def finally_fields idle)
  show ?thesis
    unfolding run1 snd_conv run2
    by (simp add: s1f s2f)
qed

text \<open>
  As stated the claim fails. When every entity of the scenario queue is found missing, the
  first pass counts three failures and the second pass, which starts at the saved cursor,
  visits and counts nothing: no entity is skipped and the counts differ. And after the
  first pass of the scenario itself, which ends with "c" rate limited and the cursor at 2,
  the second pass scrapes "c" again.
\<close>

theorem rerun_scrapes_nothing_counterexample:
  "fst (run_scraping initial_config (always (NotFound ''gone'')) scenario_queue empty_progress []
         (0, 0, 0)) = None
   \<and> session_stats all_missing_first_run = \<lparr>stat_success = 0, stat_failed = 3, stat_skipped = 0\<rparr>
   \<and> session_stats (snd (rerun initial_config (always (NotFound ''gone'')) (0, 0, 0)
                               all_missing_first_run))
       = \<lparr>stat_success = 0, stat_failed = 0, stat_skipped = 0\<rparr>
   \<and> fst (run_scraping initial_config scenario_env scenario_queue empty_progress [] (0, 0, 0)) = None
   \<and> filter is_scrape (trace (snd (rerun initial_config scenario_env (0, 0, 0) scenario_first_run)))
       = [ScrapeChannel ''c'']"
  by code_simp

theorem rerun_scrapes_nothing_witness:
  "filter is_scrape (trace (snd (rerun initial_config scenario_env (0, 0, 0)
       (snd (run_scraping initial_config (always (NotFound ''gone'')) scenario_queue
              later_done_progress [] (0, 0, 0)))))) = []
   \<and> current_index (queue_file (snd (rerun initial_config scenario_env (0, 0, 0)
       (snd (run_scraping initial_config (always (NotFound ''gone'')) scenario_queue
              later_done_progress [] (0, 0, 0)))))) = 1
   \<and> stat_skipped (session_stats (snd (rerun initial_config scenario_env (0, 0, 0)
       (snd (run_scraping initial_config (always (NotFound ''gone'')) scenario_queue
              later_done_progress [] (0, 0, 0)))))) = 2
   \<and> last_updated (progress_file (snd (rerun initial_config scenario_env (0, 0, 0)
       (snd (run_scraping initial_config (always (NotFound ''gone'')) scenario_queue
              later_done_progress [] (0, 0, 0)))))) = Some ''2026-01-01T00:30:00+00:00''"
proof -
  have h1: "fst (run_scraping initial_config (always (NotFound ''gone'')) scenario_queue
              later_done_progress [] (0, 0, 0)) = None"
    by code_simp
  have h2: "\<forall>i m. scrape (always (NotFound ''gone'')) i \<noteq> RateLimited m"
    by (simp add: always_def)
  have v: "current_index (queue_file (snd (rerun initial_config scenario_env (0, 0, 0)
       (snd (run_scraping initial_config (always (NotFound ''gone'')) scenario_queue
              later_done_progress [] (0, 0, 0)))))) = 1"
    "stat_skipped (session_stats (snd (rerun initial_config scenario_env (0, 0, 0)
       (snd (run_scraping initial_config (always (NotFound ''gone'')) scenario_queue
              later_done_progress [] (0, 0, 0)))))) = 2"
    "channels scenario_queue \<noteq> []" "finished_at scenario_env = ''2026-01-01T00:30:00+00:00''"
    by code_simp+
  from rerun_scrapes_nothing [OF h1 h2, of scenario_env "(0, 0, 0)"] v show ?thesis by simp
qed

end
